theory Spec2Isabelle
  imports Main "HOL-Library.Sublist"
begin

section \<open>Fabric: environment, command execution, aborts\<close>

text \<open>
  \<^verbatim>\<open>gitric/api.py\<close> is written against Fabric 1.x. Every effect it has is a shell command
  handed to \<^verbatim>\<open>local\<close>, \<^verbatim>\<open>run\<close> or \<^verbatim>\<open>sudo\<close>, a query through \<^verbatim>\<open>exists\<close>, a read or write of
  the process-wide dictionary \<^verbatim>\<open>env\<close>, or an \<^verbatim>\<open>abort\<close>. The model threads one state through
  the code: the dictionary, the world the commands act on, and the list of invocations
  made so far, each with the reply it got. The command executor is a parameter: a function from the world and an
  invocation to a reply and the next world.
\<close>

datatype call =
    Local string
  | Run "string option" string
  | Sudo "string option" "string option" string
  | Exists bool string

text \<open>
  \<open>Local cmd\<close> is \<^verbatim>\<open>local(cmd)\<close>; \<open>Run cwd cmd\<close> is \<^verbatim>\<open>run(cmd)\<close> inside \<^verbatim>\<open>with cd(cwd)\<close>
  (\<open>None\<close> outside any \<^verbatim>\<open>cd\<close>); \<open>Sudo user cwd cmd\<close> is \<^verbatim>\<open>sudo(cmd, user=user)\<close>;
  \<open>Exists use_sudo path\<close> is \<^verbatim>\<open>exists(path, use_sudo=use_sudo)\<close>. Only \<open>Local\<close> runs on the
  machine of the caller.
\<close>

fun is_remote :: "call \<Rightarrow> bool" where
  "is_remote (Local cmd) = False"
| "is_remote (Run cwd cmd) = True"
| "is_remote (Sudo u cwd cmd) = True"
| "is_remote (Exists use_sudo path) = True"

record reply =
  out :: string
  failed :: bool

record fab_env =
  user :: string
  host :: string
  port :: string
  gitric_allow_dirty :: "bool option"
  gitric_force_push :: "bool option"
  bluegreen_root :: "string option"
  bluegreen_ports :: "(string \<times> int) list option"
  green_path :: "string option"
  blue_path :: "string option"
  next_path_abs :: "string option"
  live_path_abs :: "string option"
  next_path :: "string option"
  live_path :: "string option"
  virtualenv_path :: "string option"
  pidfile :: "string option"
  nginx_conf :: "string option"
  color :: "string option"
  bluegreen_port :: "int option"

text \<open>
  A key of \<^verbatim>\<open>env\<close> that may be missing is an option: \<^verbatim>\<open>'k' in env\<close> is \<open>k e \<noteq> None\<close>.
  \<^verbatim>\<open>bluegreen_port\<close> holds the result of \<^verbatim>\<open>dict.get\<close>, Python's \<^verbatim>\<open>None\<close> being \<open>None\<close>.
\<close>

record 'w state =
  env :: fab_env
  world :: 'w
  trace :: "(call \<times> reply) list"

datatype error =
    DirtyWorkingCopy string
  | CommitNotInBranch string
  | NonFastForward string
  | MissingRequiredState "string list"
  | ExecutionFailure call

text \<open>
  The first three are the three \<^verbatim>\<open>abort(message)\<close> sites of \<^verbatim>\<open>git_seed\<close>, each with its
  message; \<open>MissingRequiredState\<close> is the abort of \<^verbatim>\<open>require\<close> with the missing keys;
  \<open>ExecutionFailure\<close> is the abort Fabric raises itself when a command fails outside
  \<^verbatim>\<open>warn_only\<close>.
\<close>

type_synonym 'w executor = "'w \<Rightarrow> call \<Rightarrow> reply \<times> 'w"

type_synonym ('w, 'a) fab = "'w state \<Rightarrow> (error + 'a) \<times> 'w state"

definition ret :: "'a \<Rightarrow> ('w, 'a) fab" where
  "ret a = (\<lambda>s. (Inr a, s))"

definition abort :: "error \<Rightarrow> ('w, 'a) fab" where
  "abort e = (\<lambda>s. (Inl e, s))"

definition bind :: "('w, 'a) fab \<Rightarrow> ('a \<Rightarrow> ('w, 'b) fab) \<Rightarrow> ('w, 'b) fab" where
  "bind m f = (\<lambda>s. case m s of (Inl e, s') \<Rightarrow> (Inl e, s') | (Inr a, s') \<Rightarrow> f a s')"

definition get_env :: "('w, fab_env) fab" where
  "get_env = (\<lambda>s. (Inr (env s), s))"

definition set_env :: "(fab_env \<Rightarrow> fab_env) \<Rightarrow> ('w, unit) fab" where
  "set_env f = (\<lambda>s. (Inr (), s\<lparr>env := f (env s)\<rparr>))"

definition invoke :: "'w executor \<Rightarrow> call \<Rightarrow> 'w state \<Rightarrow> reply \<times> 'w state" where
  "invoke ex c s =
     (case ex (world s) c of (r, w') \<Rightarrow> (r, s\<lparr>world := w', trace := trace s @ [(c, r)]\<rparr>))"

text \<open>
  A command that fails aborts the process unless \<^verbatim>\<open>warn_only\<close> is in force
  (\<^verbatim>\<open>settings(warn_only=True)\<close>, or \<^verbatim>\<open>quiet=True\<close>, which implies it).
\<close>

definition command :: "'w executor \<Rightarrow> bool \<Rightarrow> call \<Rightarrow> ('w, reply) fab" where
  "command ex warn_only c =
     (\<lambda>s. case invoke ex c s of (r, s') \<Rightarrow>
        if failed r \<and> \<not> warn_only then (Inl (ExecutionFailure c), s') else (Inr r, s'))"

definition fab_local :: "'w executor \<Rightarrow> bool \<Rightarrow> string \<Rightarrow> ('w, reply) fab" where
  "fab_local ex warn_only cmd = command ex warn_only (Local cmd)"

definition fab_run :: "'w executor \<Rightarrow> bool \<Rightarrow> string option \<Rightarrow> string \<Rightarrow> ('w, reply) fab" where
  "fab_run ex warn_only cwd cmd = command ex warn_only (Run cwd cmd)"

definition fab_sudo ::
  "'w executor \<Rightarrow> bool \<Rightarrow> string option \<Rightarrow> string option \<Rightarrow> string \<Rightarrow> ('w, reply) fab" where
  "fab_sudo ex warn_only u cwd cmd = command ex warn_only (Sudo u cwd cmd)"

text \<open>\<^verbatim>\<open>exists\<close> never aborts: it answers whether its test succeeded.\<close>

definition fab_exists :: "'w executor \<Rightarrow> string \<Rightarrow> bool \<Rightarrow> ('w, bool) fab" where
  "fab_exists ex path use_sudo =
     (\<lambda>s. case invoke ex (Exists use_sudo path) s of (r, s') \<Rightarrow> (Inr (\<not> failed r), s'))"

text \<open>Python's \<^verbatim>\<open>x or y\<close> on optional strings: \<^verbatim>\<open>None\<close> and \<^verbatim>\<open>''\<close> are false.\<close>

fun truthy :: "string option \<Rightarrow> bool" where
  "truthy None = False"
| "truthy (Some v) = (v \<noteq> [])"

section \<open>The git operations\<close>

text \<open>\<^verbatim>\<open>_do(use_sudo, sudo_user)\<close>: the inner function, with the \<^verbatim>\<open>cd\<close> and \<^verbatim>\<open>quiet\<close> in force.\<close>

definition do_cmd ::
  "'w executor \<Rightarrow> bool \<Rightarrow> string option \<Rightarrow> string option \<Rightarrow> bool \<Rightarrow> string \<Rightarrow> ('w, reply) fab" where
  "do_cmd ex use_sudo sudo_user cwd quiet cmd =
     (if use_sudo then fab_sudo ex quiet sudo_user cwd cmd else fab_run ex quiet cwd cmd)"

definition allow_dirty :: "('w, unit) fab" where
  "allow_dirty = set_env (\<lambda>e. e\<lparr>gitric_allow_dirty := Some True\<rparr>)"

definition force_push :: "('w, unit) fab" where
  "force_push = set_env (\<lambda>e. e\<lparr>gitric_force_push := Some True\<rparr>)"

definition git_init ::
  "'w executor \<Rightarrow> string \<Rightarrow> bool \<Rightarrow> string option \<Rightarrow> ('w, unit) fab" where
  "git_init ex repo_path use_sudo sudo_user =
     (let config = (\<lambda>cwd. do_cmd ex use_sudo sudo_user cwd False
                      ''git config receive.denyCurrentBranch ignore'')
      in bind (fab_exists ex (repo_path @ ''/.git'') use_sudo) (\<lambda>is_repo.
         if is_repo then bind (config None) (\<lambda>_. ret ())
         else
           bind (do_cmd ex use_sudo sudo_user None True (''mkdir -p '' @ repo_path)) (\<lambda>_.
           bind (do_cmd ex use_sudo sudo_user (Some repo_path) False ''git init'') (\<lambda>_.
           bind (config (Some repo_path)) (\<lambda>_. ret ())))))"

definition git_current_branch_name :: "'w executor \<Rightarrow> ('w, string) fab" where
  "git_current_branch_name ex =
     bind (fab_local ex False ''git rev-parse --abbrev-ref HEAD'') (\<lambda>r. ret (out r))"

definition git_head_rev :: "'w executor \<Rightarrow> ('w, string) fab" where
  "git_head_rev ex = bind (fab_local ex False ''git rev-parse HEAD'') (\<lambda>r. ret (out r))"

definition git_is_dirty :: "'w executor \<Rightarrow> bool \<Rightarrow> ('w, bool) fab" where
  "git_is_dirty ex ignore_untracked_files =
     bind get_env (\<lambda>e.
     if gitric_allow_dirty e \<noteq> None then ret False
     else
       let untracked_files = (if ignore_untracked_files then ''--untracked-files=no'' else '''')
       in bind (fab_local ex False (''git status '' @ untracked_files @ '' --porcelain''))
            (\<lambda>r. ret (out r \<noteq> '''')))"

definition dirty_message :: string where
  "dirty_message =
     ''Working copy is dirty. This check can be overridden by'' @ [CHR 0x0A] @
     ''importing gitric.api.allow_dirty and adding allow_dirty to your call.''"

definition not_in_branch_message :: "string \<Rightarrow> string \<Rightarrow> string" where
  "not_in_branch_message commit remote_branch =
     ''Can not push: commit '' @ commit @ '' is not in branch '' @ remote_branch"

definition non_fast_forward_message :: "string \<Rightarrow> string" where
  "non_fast_forward_message commit =
     commit @ '' is a non-fast-forward'' @ [CHR 0x0A] @
     ''push. The seed will abort so you don'' @ [CHR 0x27] @
     ''t lose information. If you are doing this'' @ [CHR 0x0A] @
     ''intentionally import gitric.api.force_push and add it to your call.''"

definition push_command ::
  "string \<Rightarrow> string \<Rightarrow> string \<Rightarrow> string \<Rightarrow> string \<Rightarrow> string \<Rightarrow> string \<Rightarrow> string" where
  "push_command remote_git_user h p repo_path commit remote_branch force =
     ''git push git+ssh://'' @ remote_git_user @ ''@'' @ h @ '':'' @ p @ repo_path @
     '' '' @ commit @ '':refs/heads/'' @ remote_branch @ '' '' @ force"

definition git_seed ::
  "'w executor \<Rightarrow> string \<Rightarrow> string option \<Rightarrow> string option \<Rightarrow> bool \<Rightarrow> bool \<Rightarrow>
   string option \<Rightarrow> string option \<Rightarrow> ('w, unit) fab" where
  "git_seed ex repo_path commit remote_branch ignore_untracked_files use_sudo sudo_user
     remote_git_user =
     bind (git_is_dirty ex ignore_untracked_files) (\<lambda>dirty_working_copy.
     if dirty_working_copy then abort (DirtyWorkingCopy dirty_message)
     else
       bind (git_init ex repo_path use_sudo sudo_user) (\<lambda>_.
       bind (if truthy commit then ret (the commit) else git_head_rev ex) (\<lambda>commit.
       bind (if truthy remote_branch then ret (the remote_branch)
             else
               bind (git_current_branch_name ex) (\<lambda>remote_branch.
               bind (fab_local ex False (''git branch --contains '' @ commit)) (\<lambda>listing.
               if \<not> sublist (''* '' @ remote_branch) (out listing)
               then abort (CommitNotInBranch (not_in_branch_message commit remote_branch))
               else ret remote_branch))) (\<lambda>remote_branch.
       bind get_env (\<lambda>e.
       let remote_git_user =
             (if truthy remote_git_user then the remote_git_user
              else if truthy sudo_user then the sudo_user else user e);
           force = (if gitric_force_push e \<noteq> None then ''-f'' else '''')
       in bind (fab_local ex True
                  (push_command remote_git_user (host e) (port e) repo_path commit
                     remote_branch force)) (\<lambda>push.
          if failed push then abort (NonFastForward (non_fast_forward_message commit))
          else ret ()))))))"

section \<open>Auxiliary notions for the proofs about the git operations\<close>

text \<open>Recognisers for the commands \<^verbatim>\<open>git_seed\<close> issues, by the fixed text they start with.\<close>

fun is_push :: "call \<Rightarrow> bool" where
  "is_push (Local cmd) = prefix ''git push '' cmd"
| "is_push (Run cwd cmd) = False"
| "is_push (Sudo u cwd cmd) = False"
| "is_push (Exists use_sudo path) = False"


text \<open>
  \<open>issues P m\<close>: every run of \<open>m\<close> leaves \<^verbatim>\<open>env\<close> alone and only adds invocations
  satisfying \<open>P\<close> to the trace.
\<close>

definition issues :: "(call \<Rightarrow> bool) \<Rightarrow> ('w, 'a) fab \<Rightarrow> bool" where
  "issues P m \<longleftrightarrow>
     (\<forall>s r s'. m s = (r, s') \<longrightarrow>
        env s' = env s \<and> (\<exists>new. trace s' = trace s @ new \<and> (\<forall>x\<in>set new. P (fst x))))"

text \<open>
  The three stages of \<open>git_seed\<close>, named so that a run can be cut at the stage borders:
  dirty check, repository creation and commit resolution; branch resolution with the
  containment check; the push.
\<close>

definition seed_commit ::
  "'w executor \<Rightarrow> string \<Rightarrow> string option \<Rightarrow> bool \<Rightarrow> bool \<Rightarrow> string option \<Rightarrow> ('w, string) fab" where
  "seed_commit ex repo_path commit ignore_untracked_files use_sudo sudo_user =
     bind (git_is_dirty ex ignore_untracked_files) (\<lambda>dirty_working_copy.
     if dirty_working_copy then abort (DirtyWorkingCopy dirty_message)
     else
       bind (git_init ex repo_path use_sudo sudo_user) (\<lambda>_.
       if truthy commit then ret (the commit) else git_head_rev ex))"

definition seed_branch :: "'w executor \<Rightarrow> string option \<Rightarrow> string \<Rightarrow> ('w, string) fab" where
  "seed_branch ex remote_branch commit =
     (if truthy remote_branch then ret (the remote_branch)
      else
        bind (git_current_branch_name ex) (\<lambda>remote_branch.
        bind (fab_local ex False (''git branch --contains '' @ commit)) (\<lambda>listing.
        if \<not> sublist (''* '' @ remote_branch) (out listing)
        then abort (CommitNotInBranch (not_in_branch_message commit remote_branch))
        else ret remote_branch)))"

definition push_user :: "fab_env \<Rightarrow> string option \<Rightarrow> string option \<Rightarrow> string" where
  "push_user e remote_git_user sudo_user =
     (if truthy remote_git_user then the remote_git_user
      else if truthy sudo_user then the sudo_user else user e)"

definition push_force :: "fab_env \<Rightarrow> string" where
  "push_force e = (if gitric_force_push e \<noteq> None then ''-f'' else '''')"

definition seed_push ::
  "'w executor \<Rightarrow> string \<Rightarrow> string option \<Rightarrow> string option \<Rightarrow> string \<Rightarrow> string \<Rightarrow> ('w, unit) fab" where
  "seed_push ex repo_path sudo_user remote_git_user commit remote_branch =
     bind get_env (\<lambda>e.
       bind (fab_local ex True
               (push_command (push_user e remote_git_user sudo_user) (host e) (port e)
                  repo_path commit remote_branch (push_force e))) (\<lambda>push.
       if failed push then abort (NonFastForward (non_fast_forward_message commit))
       else ret ()))"

text \<open>The calls of the steps before the branch is resolved.\<close>

fun early_call :: "call \<Rightarrow> bool" where
  "early_call (Local cmd) = (prefix ''git status '' cmd \<or> cmd = ''git rev-parse HEAD'')"
| "early_call (Run cwd cmd) = True"
| "early_call (Sudo u cwd cmd) = True"
| "early_call (Exists use_sudo path) = True"


section \<open>The remote host: a file system and the commands run on it\<close>

text \<open>
  \<^verbatim>\<open>init_bluegreen\<close> and \<^verbatim>\<open>swap_bluegreen\<close> act on the remote host through \<^verbatim>\<open>mkdir -p\<close>,
  \<^verbatim>\<open>ln -s\<close>, \<^verbatim>\<open>ln -nsf\<close>, \<^verbatim>\<open>readlink -f\<close> and the existence test of \<^verbatim>\<open>exists\<close>. What they do
  to the symbolic links is decided by what these commands do, so the host is modelled: a
  file system mapping a path to a directory, a regular file or a symbolic link with its
  target, and an executor that splits a command line at spaces and runs the command on
  that file system.

  Paths are compared as written, and a command looks at the paths it names, not at the
  directories above them. The model is therefore exact for absolute paths in canonical form
  (no empty, \<^verbatim>\<open>.\<close> or \<^verbatim>\<open>..\<close> component, no trailing slash) made of letters, digits and
  \<^verbatim>\<open>/ . _ -\<close>, on a host where every directory above the paths used is a real directory, not
  a symbolic link, a file or missing. \<open>canonical_path\<close> below states the condition on the
  text and \<open>below_directories\<close> the condition on the host; the theorems about the blue/green
  operations assume both of the root. Permissions are not modelled (\<^verbatim>\<open>sudo\<close> runs like
  \<^verbatim>\<open>run\<close>).
\<close>

definition answer :: "string \<Rightarrow> reply" where
  "answer text = \<lparr>out = text, failed = False\<rparr>"

definition failure :: reply where
  "failure = \<lparr>out = '''', failed = True\<rparr>"

datatype node = Dir | File | Link string

type_synonym fs = "string \<Rightarrow> node option"

definition path_char :: "char \<Rightarrow> bool" where
  "path_char c \<longleftrightarrow>
     c \<in> set ''abcdefghijklmnopqrstuvwxyzABCDEFGHIJKLMNOPQRSTUVWXYZ0123456789/._-''"

definition canonical_path :: "string \<Rightarrow> bool" where
  "canonical_path p \<longleftrightarrow>
     p \<noteq> [] \<and> hd p = CHR ''/'' \<and> last p \<noteq> CHR ''/'' \<and> list_all path_char p \<and>
     \<not> sublist ''//'' p \<and> \<not> sublist ''/./'' (p @ ''/'') \<and> \<not> sublist ''/../'' (p @ ''/'')"

text \<open>
  The directories above a path, from the root directory down: for \<^verbatim>\<open>/srv/app\<close> these are
  \<^verbatim>\<open>/\<close> and \<^verbatim>\<open>/srv\<close>. \<open>below_directories\<close>: each of them is a real directory.
\<close>

fun ancestors_from :: "string \<Rightarrow> string \<Rightarrow> string list" where
  "ancestors_from seen [] = []"
| "ancestors_from seen (c # cs) =
     (if c = CHR ''/'' \<and> seen \<noteq> [] then seen # ancestors_from (seen @ [c]) cs
      else ancestors_from (seen @ [c]) cs)"

definition ancestors :: "string \<Rightarrow> string list" where
  "ancestors p = ''/'' # ancestors_from [] p"

definition below_directories :: "fs \<Rightarrow> string \<Rightarrow> bool" where
  "below_directories fs p \<longleftrightarrow> list_all (\<lambda>a. fs a = Some Dir) (ancestors p)"

text \<open>Splitting a command line into words at spaces, as the shell does for plain words.\<close>

fun split_sp :: "string \<Rightarrow> string \<Rightarrow> string list" where
  "split_sp w [] = (if w = [] then [] else [w])"
| "split_sp w (c # cs) =
     (if c = CHR '' '' then (if w = [] then split_sp [] cs else w # split_sp [] cs)
      else split_sp (w @ [c]) cs)"

definition sh_words :: "string \<Rightarrow> string list" where
  "sh_words cmd = split_sp [] cmd"

text \<open>
  Following symbolic links from a path, at most 40 of them as Linux does; \<open>None\<close> is the
  error for too many levels of links. The result is never a link.
\<close>

fun follow :: "nat \<Rightarrow> fs \<Rightarrow> string \<Rightarrow> string option" where
  "follow 0 fs p = (case fs p of Some (Link t) \<Rightarrow> None | _ \<Rightarrow> Some p)"
| "follow (Suc k) fs p = (case fs p of Some (Link t) \<Rightarrow> follow k fs t | _ \<Rightarrow> Some p)"

definition resolve :: "fs \<Rightarrow> string \<Rightarrow> string option" where
  "resolve fs p = follow 40 fs p"

text \<open>\<^verbatim>\<open>test -e\<close>: the path, links followed, names something.\<close>

definition fs_exists :: "fs \<Rightarrow> string \<Rightarrow> bool" where
  "fs_exists fs p = (case resolve fs p of None \<Rightarrow> False | Some q \<Rightarrow> fs q \<noteq> None)"

definition is_dir :: "fs \<Rightarrow> string \<Rightarrow> bool" where
  "is_dir fs p = (case resolve fs p of None \<Rightarrow> False | Some q \<Rightarrow> fs q = Some Dir)"

text \<open>Python's \<^verbatim>\<open>os.path.basename\<close>, which is also the name \<^verbatim>\<open>ln\<close> gives a link made inside a directory.\<close>

definition basename :: "string \<Rightarrow> string" where
  "basename p = rev (takeWhile (\<lambda>c. c \<noteq> CHR ''/'') (rev p))"

text \<open>
  \<^verbatim>\<open>mkdir -p p\<close>: nothing to do when \<open>p\<close> is a directory (or a link to one); creates it when
  nothing is there; fails when something else is there. With several paths every one is
  tried, and the command fails when one of them did.
\<close>

definition mkdir_p :: "fs \<Rightarrow> string \<Rightarrow> bool \<times> fs" where
  "mkdir_p fs p =
     (if is_dir fs p then (True, fs)
      else if fs p = None then (True, fs(p \<mapsto> Dir))
      else (False, fs))"

fun mkdir_p_all :: "fs \<Rightarrow> string list \<Rightarrow> bool \<times> fs" where
  "mkdir_p_all fs [] = (True, fs)"
| "mkdir_p_all fs (p # ps) =
     (case mkdir_p fs p of (ok, fs') \<Rightarrow>
        (case mkdir_p_all fs' ps of (oks, fs'') \<Rightarrow> (ok \<and> oks, fs'')))"

text \<open>
  \<^verbatim>\<open>ln -s target link\<close>: makes the link when nothing is at \<open>link\<close>; when \<open>link\<close> is a directory
  (or a link to one) makes it inside, under the base name of the target, if that name is
  free; fails otherwise.
\<close>

definition ln_s :: "fs \<Rightarrow> string \<Rightarrow> string \<Rightarrow> bool \<times> fs" where
  "ln_s fs target link =
     (if is_dir fs link then
        (let inside = link @ ''/'' @ basename target
         in if fs inside = None then (True, fs(inside \<mapsto> Link target)) else (False, fs))
      else if fs link = None then (True, fs(link \<mapsto> Link target))
      else (False, fs))"

text \<open>
  \<^verbatim>\<open>ln -nsf target link\<close>: \<^verbatim>\<open>-n\<close> takes a \<open>link\<close> that is a symbolic link as the link itself, and
  \<^verbatim>\<open>-f\<close> replaces what is there. Only a real directory at \<open>link\<close> still receives the new
  link inside it, where a directory of that name cannot be replaced.
\<close>

definition ln_nsf :: "fs \<Rightarrow> string \<Rightarrow> string \<Rightarrow> bool \<times> fs" where
  "ln_nsf fs target link =
     (if fs link = Some Dir then
        (let inside = link @ ''/'' @ basename target
         in if fs inside = Some Dir then (False, fs) else (True, fs(inside \<mapsto> Link target)))
      else (True, fs(link \<mapsto> Link target)))"

text \<open>\<^verbatim>\<open>readlink -f p\<close> prints the path reached from \<open>p\<close> through the links.\<close>

definition readlink_f :: "fs \<Rightarrow> string \<Rightarrow> reply" where
  "readlink_f fs p = (case resolve fs p of None \<Rightarrow> failure | Some q \<Rightarrow> answer q)"

definition outcome :: "bool \<times> fs \<Rightarrow> reply \<times> fs" where
  "outcome r = (case r of (ok, fs') \<Rightarrow> (if ok then answer '''' else failure, fs'))"

definition sh :: "fs \<Rightarrow> string list \<Rightarrow> reply \<times> fs" where
  "sh fs ws =
     (case ws of
        c # opt # args \<Rightarrow>
          if c = ''mkdir'' \<and> opt = ''-p'' \<and> args \<noteq> [] then outcome (mkdir_p_all fs args)
          else if c = ''ln'' \<and> opt = ''-s'' then
            (case args of [target, link] \<Rightarrow> outcome (ln_s fs target link) | _ \<Rightarrow> (failure, fs))
          else if c = ''ln'' \<and> opt = ''-nsf'' then
            (case args of [target, link] \<Rightarrow> outcome (ln_nsf fs target link) | _ \<Rightarrow> (failure, fs))
          else if c = ''readlink'' \<and> opt = ''-f'' then
            (case args of [p] \<Rightarrow> (readlink_f fs p, fs) | _ \<Rightarrow> (failure, fs))
          else (failure, fs)
      | _ \<Rightarrow> (failure, fs))"

text \<open>
  The executor of the remote host. A command line outside the five forms above fails and
  changes nothing; local commands do not reach the host.
\<close>

fun remote_host :: "fs executor" where
  "remote_host fs (Local cmd) = (failure, fs)"
| "remote_host fs (Run cwd cmd) = sh fs (sh_words cmd)"
| "remote_host fs (Sudo u cwd cmd) = sh fs (sh_words cmd)"
| "remote_host fs (Exists use_sudo path) = (if fs_exists fs path then answer '''' else failure, fs)"

section \<open>The blue/green operations\<close>

text \<open>Python's \<^verbatim>\<open>os.path.join\<close> of two parts (more parts are joined from the left).\<close>

definition os_path_join :: "string \<Rightarrow> string \<Rightarrow> string" where
  "os_path_join a b =
     (if b \<noteq> [] \<and> hd b = CHR ''/'' then b
      else if a = [] \<or> last a = CHR ''/'' then a @ b
      else a @ ''/'' @ b)"

text \<open>
  \<^verbatim>\<open>require(*keys)\<close> of Fabric aborts, naming them, when keys are missing from \<^verbatim>\<open>env\<close>; a key
  whose value is an empty dict, list, tuple or set counts as missing. \<open>env_has\<close> reads a
  key by its name.
\<close>

definition env_has :: "fab_env \<Rightarrow> string \<Rightarrow> bool" where
  "env_has e k =
     (if k = ''bluegreen_root'' then bluegreen_root e \<noteq> None
      else if k = ''bluegreen_ports'' then
        (case bluegreen_ports e of None \<Rightarrow> False | Some ports \<Rightarrow> ports \<noteq> [])
      else if k = ''next_path'' then next_path e \<noteq> None
      else if k = ''live_path'' then live_path e \<noteq> None
      else if k = ''live_path_abs'' then live_path_abs e \<noteq> None
      else if k = ''next_path_abs'' then next_path_abs e \<noteq> None
      else False)"

definition require :: "string list \<Rightarrow> ('w, unit) fab" where
  "require keys =
     bind get_env (\<lambda>e.
       let missing = filter (\<lambda>k. \<not> env_has e k) keys
       in if missing = [] then ret () else abort (MissingRequiredState missing))"

text \<open>The command lines, as the format strings of the source build them.\<close>

definition mkdir_command :: "string \<Rightarrow> string \<Rightarrow> string \<Rightarrow> string" where
  "mkdir_command root blue green =
     ''mkdir -p '' @ root @ '' '' @ blue @ '' '' @ green @ '' '' @ blue @ ''/etc '' @
     green @ ''/etc''"

definition ln_s_command :: "string \<Rightarrow> string \<Rightarrow> string" where
  "ln_s_command target link = ''ln -s '' @ target @ '' '' @ link"

definition ln_nsf_command :: "string \<Rightarrow> string \<Rightarrow> string" where
  "ln_nsf_command target link = ''ln -nsf '' @ target @ '' '' @ link"

definition readlink_command :: "string \<Rightarrow> string" where
  "readlink_command path = ''readlink -f '' @ path"

definition init_bluegreen :: "'w executor \<Rightarrow> ('w, unit) fab" where
  "init_bluegreen ex =
     bind (require [''bluegreen_root'', ''bluegreen_ports'']) (\<lambda>_.
     bind (set_env (\<lambda>e. e\<lparr>green_path := Some (os_path_join (the (bluegreen_root e)) ''green'')\<rparr>)) (\<lambda>_.
     bind (set_env (\<lambda>e. e\<lparr>blue_path := Some (os_path_join (the (bluegreen_root e)) ''blue'')\<rparr>)) (\<lambda>_.
     bind (set_env (\<lambda>e. e\<lparr>next_path_abs := Some (os_path_join (the (bluegreen_root e)) ''next'')\<rparr>)) (\<lambda>_.
     bind (set_env (\<lambda>e. e\<lparr>live_path_abs := Some (os_path_join (the (bluegreen_root e)) ''live'')\<rparr>)) (\<lambda>_.
     bind get_env (\<lambda>e.
     bind (fab_run ex False None
             (mkdir_command (the (bluegreen_root e)) (the (blue_path e)) (the (green_path e))))
       (\<lambda>_.
     bind (fab_exists ex (the (live_path_abs e)) False) (\<lambda>live_exists.
     bind (if \<not> live_exists
           then bind (fab_run ex False None
                        (ln_s_command (the (blue_path e)) (the (live_path_abs e))))
                  (\<lambda>_. ret ())
           else ret ()) (\<lambda>_.
     bind (fab_exists ex (the (next_path_abs e)) False) (\<lambda>next_exists.
     bind (if \<not> next_exists
           then bind (fab_run ex False None
                        (ln_s_command (the (green_path e)) (the (next_path_abs e))))
                  (\<lambda>_. ret ())
           else ret ()) (\<lambda>_.
     bind (fab_run ex False None (readlink_command (the (next_path_abs e)))) (\<lambda>next_reply.
     bind (set_env (\<lambda>e. e\<lparr>next_path := Some (out next_reply)\<rparr>)) (\<lambda>_.
     bind (fab_run ex False None (readlink_command (the (live_path_abs e)))) (\<lambda>live_reply.
     bind (set_env (\<lambda>e. e\<lparr>live_path := Some (out live_reply)\<rparr>)) (\<lambda>_.
     bind (set_env (\<lambda>e. e\<lparr>virtualenv_path := Some (os_path_join (the (next_path e)) ''env'')\<rparr>)) (\<lambda>_.
     bind (set_env (\<lambda>e. e\<lparr>pidfile :=
             Some (os_path_join (os_path_join (the (next_path e)) ''etc'') ''app.pid'')\<rparr>)) (\<lambda>_.
     bind (set_env (\<lambda>e. e\<lparr>nginx_conf :=
             Some (os_path_join (os_path_join (the (next_path e)) ''etc'') ''nginx.conf'')\<rparr>)) (\<lambda>_.
     bind (set_env (\<lambda>e. e\<lparr>color := Some (basename (the (next_path e)))\<rparr>)) (\<lambda>_.
     set_env (\<lambda>e. e\<lparr>bluegreen_port :=
             map_of (the (bluegreen_ports e)) (the (color e))\<rparr>))))))))))))))))))))"

definition swap_bluegreen :: "'w executor \<Rightarrow> ('w, unit) fab" where
  "swap_bluegreen ex =
     bind (require [''next_path'', ''live_path'', ''live_path_abs'', ''next_path_abs'']) (\<lambda>_.
     bind get_env (\<lambda>e.
     bind (fab_run ex False None
             (ln_nsf_command (the (next_path e)) (the (live_path_abs e)))) (\<lambda>_.
     bind (fab_run ex False None
             (ln_nsf_command (the (live_path e)) (the (next_path_abs e)))) (\<lambda>_.
     ret ()))))"

section \<open>Auxiliary notions for the proofs about the blue/green operations\<close>

text \<open>A word of a command line: not empty, no space in it.\<close>

definition word :: "string \<Rightarrow> bool" where
  "word w \<longleftrightarrow> w \<noteq> [] \<and> CHR '' '' \<notin> set w"

text \<open>
  The starting points the claims are about. The five directories of the layout are
  absent or real directories; the two links are both absent (a fresh host), or each
  points at one of the two slots.
\<close>

definition dir_or_absent :: "fs \<Rightarrow> string \<Rightarrow> bool" where
  "dir_or_absent fs p \<longleftrightarrow> fs p = None \<or> fs p = Some Dir"

definition tree_ready :: "fs \<Rightarrow> string \<Rightarrow> bool" where
  "tree_ready fs root \<longleftrightarrow>
     dir_or_absent fs root \<and> dir_or_absent fs (root @ ''/blue'') \<and>
     dir_or_absent fs (root @ ''/green'') \<and> dir_or_absent fs (root @ ''/blue/etc'') \<and>
     dir_or_absent fs (root @ ''/green/etc'')"

definition fresh :: "fs \<Rightarrow> string \<Rightarrow> bool" where
  "fresh fs root \<longleftrightarrow> fs (root @ ''/live'') = None \<and> fs (root @ ''/next'') = None"

definition slot :: "string \<Rightarrow> string \<Rightarrow> bool" where
  "slot root p \<longleftrightarrow> p = root @ ''/blue'' \<or> p = root @ ''/green''"

definition linked :: "fs \<Rightarrow> string \<Rightarrow> string \<Rightarrow> string \<Rightarrow> bool" where
  "linked fs root x y \<longleftrightarrow>
     fs (root @ ''/live'') = Some (Link x) \<and> fs (root @ ''/next'') = Some (Link y) \<and>
     slot root x \<and> slot root y"

text \<open>
  A state \<open>init_bluegreen\<close> can start from: the root is in \<^verbatim>\<open>env\<close> and canonical, the port
  mapping is in \<^verbatim>\<open>env\<close> and not empty, and nothing stands where a directory has to be.
\<close>

definition init_ready :: "fs state \<Rightarrow> string \<Rightarrow> bool" where
  "init_ready s root \<longleftrightarrow>
     bluegreen_root (env s) = Some root \<and> env_has (env s) ''bluegreen_ports'' \<and>
     canonical_path root \<and> tree_ready (world s) root"

text \<open>The layout on the host once \<open>init_bluegreen\<close> has run: the five directories and the two links.\<close>

definition settled :: "fs \<Rightarrow> string \<Rightarrow> string \<Rightarrow> string \<Rightarrow> bool" where
  "settled fs root x y \<longleftrightarrow>
     fs root = Some Dir \<and> fs (root @ ''/blue'') = Some Dir \<and> fs (root @ ''/green'') = Some Dir \<and>
     fs (root @ ''/blue/etc'') = Some Dir \<and> fs (root @ ''/green/etc'') = Some Dir \<and>
     linked fs root x y"

text \<open>The directories \<^verbatim>\<open>mkdir -p\<close> of \<open>init_bluegreen\<close> leaves behind.\<close>

definition with_tree :: "fs \<Rightarrow> string \<Rightarrow> fs" where
  "with_tree fs root =
     fs(root \<mapsto> Dir, root @ ''/blue'' \<mapsto> Dir, root @ ''/green'' \<mapsto> Dir,
        root @ ''/blue/etc'' \<mapsto> Dir, root @ ''/green/etc'' \<mapsto> Dir)"

text \<open>What \<open>init_bluegreen\<close> stores in \<^verbatim>\<open>env\<close> when \<^verbatim>\<open>live\<close> and \<^verbatim>\<open>next\<close> resolve to the given paths.\<close>

definition layout_env :: "fab_env \<Rightarrow> string \<Rightarrow> string \<Rightarrow> string \<Rightarrow> fab_env" where
  "layout_env e root live_target next_target =
     e\<lparr>green_path := Some (root @ ''/green''), blue_path := Some (root @ ''/blue''),
       next_path_abs := Some (root @ ''/next''), live_path_abs := Some (root @ ''/live''),
       next_path := Some next_target, live_path := Some live_target,
       virtualenv_path := Some (os_path_join next_target ''env''),
       pidfile := Some (os_path_join (os_path_join next_target ''etc'') ''app.pid''),
       nginx_conf := Some (os_path_join (os_path_join next_target ''etc'') ''nginx.conf''),
       color := Some (basename next_target),
       bluegreen_port := map_of (the (bluegreen_ports e)) (basename next_target)\<rparr>"

text \<open>
  \<open>init_bluegreen\<close> in three stages, for the proofs: the four paths stored in \<^verbatim>\<open>env\<close>, the
  directories and links made on the host, and the values derived from the links.
\<close>

definition init_paths :: "('w, unit) fab" where
  "init_paths =
     bind (set_env (\<lambda>e. e\<lparr>green_path := Some (os_path_join (the (bluegreen_root e)) ''green'')\<rparr>)) (\<lambda>_.
     bind (set_env (\<lambda>e. e\<lparr>blue_path := Some (os_path_join (the (bluegreen_root e)) ''blue'')\<rparr>)) (\<lambda>_.
     bind (set_env (\<lambda>e. e\<lparr>next_path_abs := Some (os_path_join (the (bluegreen_root e)) ''next'')\<rparr>)) (\<lambda>_.
     set_env (\<lambda>e. e\<lparr>live_path_abs := Some (os_path_join (the (bluegreen_root e)) ''live'')\<rparr>))))"

definition init_links :: "'w executor \<Rightarrow> fab_env \<Rightarrow> ('w, unit) fab" where
  "init_links ex e =
     bind (fab_run ex False None
             (mkdir_command (the (bluegreen_root e)) (the (blue_path e)) (the (green_path e))))
       (\<lambda>_.
     bind (fab_exists ex (the (live_path_abs e)) False) (\<lambda>live_exists.
     bind (if \<not> live_exists
           then bind (fab_run ex False None
                        (ln_s_command (the (blue_path e)) (the (live_path_abs e))))
                  (\<lambda>_. ret ())
           else ret ()) (\<lambda>_.
     bind (fab_exists ex (the (next_path_abs e)) False) (\<lambda>next_exists.
     if \<not> next_exists
     then bind (fab_run ex False None
                  (ln_s_command (the (green_path e)) (the (next_path_abs e))))
            (\<lambda>_. ret ())
     else ret ()))))"

definition init_derive :: "'w executor \<Rightarrow> fab_env \<Rightarrow> ('w, unit) fab" where
  "init_derive ex e =
     bind (fab_run ex False None (readlink_command (the (next_path_abs e)))) (\<lambda>next_reply.
     bind (set_env (\<lambda>e. e\<lparr>next_path := Some (out next_reply)\<rparr>)) (\<lambda>_.
     bind (fab_run ex False None (readlink_command (the (live_path_abs e)))) (\<lambda>live_reply.
     bind (set_env (\<lambda>e. e\<lparr>live_path := Some (out live_reply)\<rparr>)) (\<lambda>_.
     bind (set_env (\<lambda>e. e\<lparr>virtualenv_path := Some (os_path_join (the (next_path e)) ''env'')\<rparr>)) (\<lambda>_.
     bind (set_env (\<lambda>e. e\<lparr>pidfile :=
             Some (os_path_join (os_path_join (the (next_path e)) ''etc'') ''app.pid'')\<rparr>)) (\<lambda>_.
     bind (set_env (\<lambda>e. e\<lparr>nginx_conf :=
             Some (os_path_join (os_path_join (the (next_path e)) ''etc'') ''nginx.conf'')\<rparr>)) (\<lambda>_.
     bind (set_env (\<lambda>e. e\<lparr>color := Some (basename (the (next_path e)))\<rparr>)) (\<lambda>_.
     set_env (\<lambda>e. e\<lparr>bluegreen_port :=
             map_of (the (bluegreen_ports e)) (the (color e))\<rparr>)))))))))"

text \<open>
  The invocations, with their replies, of a first \<open>init_bluegreen\<close> on a fresh host, of one
  that finds the links at \<open>x\<close> and \<open>y\<close>, and of a \<open>swap_bluegreen\<close> whose \<^verbatim>\<open>env\<close> holds \<open>x\<close> as the
  live path and \<open>y\<close> as the next path.
\<close>

definition fresh_init_trace :: "string \<Rightarrow> (call \<times> reply) list" where
  "fresh_init_trace r =
     [(Run None (mkdir_command r (r @ ''/blue'') (r @ ''/green'')), answer ''''),
      (Exists False (r @ ''/live''), failure),
      (Run None (ln_s_command (r @ ''/blue'') (r @ ''/live'')), answer ''''),
      (Exists False (r @ ''/next''), failure),
      (Run None (ln_s_command (r @ ''/green'') (r @ ''/next'')), answer ''''),
      (Run None (readlink_command (r @ ''/next'')), answer (r @ ''/green'')),
      (Run None (readlink_command (r @ ''/live'')), answer (r @ ''/blue''))]"

definition repeated_init_trace :: "string \<Rightarrow> string \<Rightarrow> string \<Rightarrow> (call \<times> reply) list" where
  "repeated_init_trace r x y =
     [(Run None (mkdir_command r (r @ ''/blue'') (r @ ''/green'')), answer ''''),
      (Exists False (r @ ''/live''), answer ''''),
      (Exists False (r @ ''/next''), answer ''''),
      (Run None (readlink_command (r @ ''/next'')), answer y),
      (Run None (readlink_command (r @ ''/live'')), answer x)]"

definition swap_trace :: "string \<Rightarrow> string \<Rightarrow> string \<Rightarrow> (call \<times> reply) list" where
  "swap_trace r x y =
     [(Run None (ln_nsf_command y (r @ ''/live'')), answer ''''),
      (Run None (ln_nsf_command x (r @ ''/next'')), answer '''')]"


section \<open>Concrete executors and states\<close>

text \<open>
  Scripted executors over a world with no state of its own: the reply depends on the
  invocation only. They stand for a local working copy and a remote host in the concrete
  runs below.
\<close>

definition scripted :: "(call \<Rightarrow> reply) \<Rightarrow> unit executor" where
  "scripted f = (\<lambda>w c. (f c, w))"

definition env0 :: fab_env where
  "env0 = \<lparr>user = ''deploy'', host = ''example.org'', port = ''22'',
            gitric_allow_dirty = None, gitric_force_push = None,
            bluegreen_root = None, bluegreen_ports = None,
            green_path = None, blue_path = None, next_path_abs = None, live_path_abs = None,
            next_path = None, live_path = None, virtualenv_path = None, pidfile = None,
            nginx_conf = None, color = None, bluegreen_port = None\<rparr>"

definition state0 :: "unit state" where
  "state0 = \<lparr>env = env0, world = (), trace = []\<rparr>"

text \<open>A working copy on branch \<^verbatim>\<open>main\<close> at commit \<^verbatim>\<open>abc123\<close>, with the given status output.\<close>

fun working_copy :: "string \<Rightarrow> bool \<Rightarrow> call \<Rightarrow> reply" where
  "working_copy status push_fails (Local cmd) =
     (if prefix ''git status '' cmd then answer status
      else if cmd = ''git rev-parse HEAD'' then answer ''abc123''
      else if cmd = ''git rev-parse --abbrev-ref HEAD'' then answer ''main''
      else if cmd = ''git branch --contains abc123'' then answer ''* main''
      else if prefix ''git branch --contains '' cmd then answer ''  topic''
      else if prefix ''git push '' cmd then (if push_fails then failure else answer '''')
      else failure)"
| "working_copy status push_fails (Run cwd cmd) = answer ''''"
| "working_copy status push_fails (Sudo u cwd cmd) = answer ''''"
| "working_copy status push_fails (Exists use_sudo path) = answer ''''"

text \<open>The state after \<^verbatim>\<open>force_push\<close> has been called.\<close>

definition forced :: "unit state" where
  "forced = state0\<lparr>env := env0\<lparr>gitric_force_push := Some True\<rparr>\<rparr>"

text \<open>
  The scenario of the specification: root \<^verbatim>\<open>/srv/app\<close>, ports 8001 for blue and 8002 for
  green, on a host where \<^verbatim>\<open>/srv\<close> is a directory and nothing exists below it.
\<close>

definition app_env :: fab_env where
  "app_env = env0\<lparr>bluegreen_root := Some ''/srv/app'',
                   bluegreen_ports := Some [(''blue'', 8001), (''green'', 8002)]\<rparr>"

definition fresh_host :: "fs state" where
  "fresh_host = \<lparr>env = app_env, world = [''/'' \<mapsto> Dir, ''/srv'' \<mapsto> Dir], trace = []\<rparr>"

text \<open>The states reached from it by the sequences of calls the claims are about.\<close>

definition after_init :: "fs state" where
  "after_init = snd (init_bluegreen remote_host fresh_host)"

definition after_second_init :: "fs state" where
  "after_second_init = snd (init_bluegreen remote_host after_init)"

definition after_swap :: "fs state" where
  "after_swap = snd (swap_bluegreen remote_host after_init)"

definition after_second_swap :: "fs state" where
  "after_second_swap = snd (swap_bluegreen remote_host after_swap)"

definition after_reinit :: "fs state" where
  "after_reinit = snd (init_bluegreen remote_host after_swap)"

definition after_reinit_swap :: "fs state" where
  "after_reinit_swap = snd (swap_bluegreen remote_host after_reinit)"


section \<open>Runs of the git operations\<close>

lemma issues_ret: "issues P (ret a)"
  by (simp add: issues_def ret_def)

lemma issues_abort: "issues P (abort e)"
  by (simp add: issues_def abort_def)

lemma issues_get_env: "issues P get_env"
  by (simp add: issues_def get_env_def)

lemma issues_command: "P c \<Longrightarrow> issues P (command ex w c)"
  by (auto simp: issues_def command_def invoke_def split: prod.splits if_splits)

lemma issues_exists: "P (Exists u p) \<Longrightarrow> issues P (fab_exists ex p u)"
  by (auto simp: issues_def fab_exists_def invoke_def split: prod.splits if_splits)

lemma issues_bind:
  assumes "issues P m" and "\<And>a. issues P (f a)"
  shows "issues P (bind m f)"
  unfolding issues_def
proof (intro allI impI)
  fix s r s'
  assume run: "bind m f s = (r, s')"
  obtain r1 s1 where m: "m s = (r1, s1)" by (cases "m s")
  from assms(1) m obtain n1 where e1: "env s1 = env s" and t1: "trace s1 = trace s @ n1"
    and p1: "\<forall>x\<in>set n1. P (fst x)" unfolding issues_def by blast
  show "env s' = env s \<and> (\<exists>new. trace s' = trace s @ new \<and> (\<forall>x\<in>set new. P (fst x)))"
  proof (cases r1)
    case (Inl e)
    with run m have "s' = s1" by (simp add: bind_def)
    with e1 t1 p1 show ?thesis by blast
  next
    case (Inr a)
    with run m have "f a s1 = (r, s')" by (simp add: bind_def)
    with assms(2) obtain n2 where "env s' = env s1" and "trace s' = trace s1 @ n2"
      and "\<forall>x\<in>set n2. P (fst x)" unfolding issues_def by blast
    with e1 t1 p1 have "env s' = env s" and "trace s' = trace s @ (n1 @ n2)"
      and "\<forall>x\<in>set (n1 @ n2). P (fst x)" by auto
    then show ?thesis by blast
  qed
qed

lemma issues_if: "(b \<Longrightarrow> issues P m) \<Longrightarrow> (\<not> b \<Longrightarrow> issues P n) \<Longrightarrow> issues P (if b then m else n)"
  by simp

lemmas issues_intros = issues_bind issues_ret issues_abort issues_get_env issues_if

lemma issues_do_cmd: "P (Run cwd cmd) \<Longrightarrow> P (Sudo su cwd cmd) \<Longrightarrow> issues P (do_cmd ex us su cwd q cmd)"
  by (simp add: do_cmd_def fab_run_def fab_sudo_def issues_command)

lemma issues_git_init:
  "(\<And>c. is_remote c \<Longrightarrow> P c) \<Longrightarrow> issues P (git_init ex rp us su)"
  unfolding git_init_def Let_def
  by (intro issues_intros issues_exists issues_do_cmd) simp_all

lemma issues_git_is_dirty:
  "(\<And>cmd. prefix ''git status '' cmd \<Longrightarrow> P (Local cmd)) \<Longrightarrow> issues P (git_is_dirty ex iu)"
  unfolding git_is_dirty_def Let_def fab_local_def
  by (intro issues_intros issues_command) simp_all

lemma bind_assoc: "bind (bind m f) g = bind m (\<lambda>a. bind (f a) g)"
  by (auto simp: bind_def fun_eq_iff split: prod.splits sum.splits)

lemma bind_abort: "bind (abort e) f = abort e"
  by (simp add: bind_def abort_def)

lemma bind_if: "bind (if b then m else n) f = (if b then bind m f else bind n f)"
  by simp

lemma git_seed_split:
  "git_seed ex rp commit rb iu us su rgu =
     bind (seed_commit ex rp commit iu us su) (\<lambda>c.
     bind (seed_branch ex rb c) (\<lambda>b. seed_push ex rp su rgu c b))"
  unfolding git_seed_def seed_commit_def seed_push_def push_user_def push_force_def Let_def
    bind_assoc bind_if bind_abort seed_branch_def
  by (rule refl)

lemma bind_run:
  assumes "bind m f s = (r, s')"
  obtains (stop) e where "m s = (Inl e, s')" "r = Inl e"
        | (go) a s1 where "m s = (Inr a, s1)" "f a s1 = (r, s')"
  using assms by (auto simp: bind_def split: prod.splits sum.splits)

lemma command_run:
  assumes "command ex w c s = (r, s')"
  obtains p where "env s' = env s" "trace s' = trace s @ [(c, p)]"
    "r = (if failed p \<and> \<not> w then Inl (ExecutionFailure c) else Inr p)"
  using assms by (auto simp: command_def invoke_def split: prod.splits if_splits)

lemma issuesD:
  assumes "issues P m" "m s = (r, s')"
  obtains new where "env s' = env s" "trace s' = trace s @ new" "\<forall>x\<in>set new. P (fst x)"
  using assms unfolding issues_def by blast

lemma early_call_not_push: "early_call c \<Longrightarrow> \<not> is_push c"
  by (cases c) (auto simp: prefix_def)



lemma issues_seed_commit: "issues early_call (seed_commit ex rp commit iu us su)"
  unfolding seed_commit_def git_head_rev_def fab_local_def
  by (intro issues_intros issues_git_init issues_git_is_dirty issues_command)
     (auto elim: is_remote.elims)

lemma seed_commit_result:
  assumes "seed_commit ex rp commit iu us su s = (Inr c, s1)" and "trace s1 = trace s @ n"
  shows "if truthy commit then c = the commit
         else \<exists>hr. (Local ''git rev-parse HEAD'', hr) \<in> set n \<and> c = out hr"
proof -
  from assms(1) obtain s0 where d: "git_is_dirty ex iu s = (Inr False, s0)"
    and rest: "bind (git_init ex rp us su)
                 (\<lambda>_. if truthy commit then ret (the commit) else git_head_rev ex) s0 = (Inr c, s1)"
    unfolding seed_commit_def
    by (auto elim!: bind_run simp: abort_def split: if_splits)
  from rest obtain s2 where i: "git_init ex rp us su s0 = (Inr (), s2)"
    and h: "(if truthy commit then ret (the commit) else git_head_rev ex) s2 = (Inr c, s1)"
    by (auto elim!: bind_run)
  show ?thesis
  proof (cases "truthy commit")
    case True
    with h show ?thesis by (simp add: ret_def)
  next
    case False
    with h have "git_head_rev ex s2 = (Inr c, s1)" by simp
    then obtain hr where t: "trace s1 = trace s2 @ [(Local ''git rev-parse HEAD'', hr)]"
      and c: "c = out hr"
      unfolding git_head_rev_def fab_local_def
      by (auto elim!: bind_run command_run simp: ret_def split: if_splits)
    from issuesD[OF issues_git_is_dirty d, of "\<lambda>_. True"] obtain n0 where "trace s0 = trace s @ n0"
      by auto
    moreover from issuesD[OF issues_git_init i, of "\<lambda>_. True"] obtain n1 where "trace s2 = trace s0 @ n1"
      by auto
    ultimately have "n = n0 @ n1 @ [(Local ''git rev-parse HEAD'', hr)]"
      using t assms(2) by simp
    with c False show ?thesis by auto
  qed
qed

lemma seed_branch_given:
  assumes "seed_branch ex rb c s = (r, s')" and "truthy rb"
  shows "s' = s \<and> r = Inr (the rb)"
  using assms by (simp add: seed_branch_def ret_def)

lemma seed_branch_run:
  assumes "seed_branch ex rb c s = (r, s')" and "\<not> truthy rb"
  obtains (no_branch) br where "failed br" "env s' = env s"
      "trace s' = trace s @ [(Local ''git rev-parse --abbrev-ref HEAD'', br)]"
      "r = Inl (ExecutionFailure (Local ''git rev-parse --abbrev-ref HEAD''))"
  | (checked) br ls where "\<not> failed br" "env s' = env s"
      "trace s' = trace s @ [(Local ''git rev-parse --abbrev-ref HEAD'', br),
                            (Local (''git branch --contains '' @ c), ls)]"
      "r = (if failed ls then Inl (ExecutionFailure (Local (''git branch --contains '' @ c)))
            else if \<not> sublist (''* '' @ out br) (out ls)
            then Inl (CommitNotInBranch (not_in_branch_message c (out br)))
            else Inr (out br))"
proof -
  from assms have run: "bind (git_current_branch_name ex) (\<lambda>remote_branch.
        bind (fab_local ex False (''git branch --contains '' @ c)) (\<lambda>listing.
        if \<not> sublist (''* '' @ remote_branch) (out listing)
        then abort (CommitNotInBranch (not_in_branch_message c remote_branch))
        else ret remote_branch)) s = (r, s')"
    by (simp add: seed_branch_def)
  obtain r1 s1 where b: "fab_local ex False ''git rev-parse --abbrev-ref HEAD'' s = (r1, s1)"
    by (cases "fab_local ex False ''git rev-parse --abbrev-ref HEAD'' s")
  then obtain br where e1: "env s1 = env s"
    and t1: "trace s1 = trace s @ [(Local ''git rev-parse --abbrev-ref HEAD'', br)]"
    and r1: "r1 = (if failed br then Inl (ExecutionFailure (Local ''git rev-parse --abbrev-ref HEAD''))
                   else Inr br)"
    unfolding fab_local_def by (auto elim!: command_run)
  show thesis
  proof (cases "failed br")
    case True
    with run b r1 have "r = Inl (ExecutionFailure (Local ''git rev-parse --abbrev-ref HEAD''))"
      and "s' = s1"
      by (simp_all add: git_current_branch_name_def bind_def)
    with True e1 t1 show thesis by (intro no_branch[of br]) simp_all
  next
    case False
    with run b r1 have run2: "bind (fab_local ex False (''git branch --contains '' @ c)) (\<lambda>listing.
        if \<not> sublist (''* '' @ out br) (out listing)
        then abort (CommitNotInBranch (not_in_branch_message c (out br)))
        else ret (out br)) s1 = (r, s')"
      by (simp add: git_current_branch_name_def bind_def ret_def)
    obtain r2 s2 where l: "fab_local ex False (''git branch --contains '' @ c) s1 = (r2, s2)"
      by (cases "fab_local ex False (''git branch --contains '' @ c) s1")
    then obtain ls where e2: "env s2 = env s1"
      and t2: "trace s2 = trace s1 @ [(Local (''git branch --contains '' @ c), ls)]"
      and r2: "r2 = (if failed ls then Inl (ExecutionFailure (Local (''git branch --contains '' @ c)))
                     else Inr ls)"
      unfolding fab_local_def by (auto elim!: command_run)
    from run2 l r2 have "s' = s2"
      and "r = (if failed ls then Inl (ExecutionFailure (Local (''git branch --contains '' @ c)))
            else if \<not> sublist (''* '' @ out br) (out ls)
            then Inl (CommitNotInBranch (not_in_branch_message c (out br)))
            else Inr (out br))"
      by (auto simp: bind_def abort_def ret_def split: if_splits)
    with False e1 e2 t1 t2 show thesis by (intro checked[of br ls]) simp_all
  qed
qed

lemma seed_push_run:
  assumes "seed_push ex rp su rgu c b s = (r, s')"
  obtains pr where "env s' = env s"
    "trace s' = trace s @ [(Local (push_command (push_user (env s) rgu su) (host (env s))
                                     (port (env s)) rp c b (push_force (env s))), pr)]"
    "r = (if failed pr then Inl (NonFastForward (non_fast_forward_message c)) else Inr ())"
  using assms unfolding seed_push_def fab_local_def
  by (auto elim!: bind_run command_run simp: ret_def abort_def get_env_def split: if_splits)

lemma issues_run:
  assumes "issues P m" and "m s = (r, s')"
  shows "env s' = env s \<and> (\<exists>new. trace s' = trace s @ new \<and> (\<forall>x\<in>set new. P (fst x)))"
  using assms unfolding issues_def by blast

lemma git_seed_run:
  assumes "git_seed ex rp commit rb iu us su rgu s = (r, s')"
  obtains (in_commit) e where "seed_commit ex rp commit iu us su s = (Inl e, s')" "r = Inl e"
  | (in_branch) c s1 e where "seed_commit ex rp commit iu us su s = (Inr c, s1)"
      "seed_branch ex rb c s1 = (Inl e, s')" "r = Inl e"
  | (pushed) c s1 b s2 where "seed_commit ex rp commit iu us su s = (Inr c, s1)"
      "seed_branch ex rb c s1 = (Inr b, s2)" "seed_push ex rp su rgu c b s2 = (r, s')"
proof -
  from assms have run: "bind (seed_commit ex rp commit iu us su) (\<lambda>c.
     bind (seed_branch ex rb c) (\<lambda>b. seed_push ex rp su rgu c b)) s = (r, s')"
    by (simp only: git_seed_split)
  from run show thesis
  proof (cases rule: bind_run)
    case (stop e)
    then show thesis by (rule in_commit)
  next
    case (go c s1)
    from go(2) show thesis
    proof (cases rule: bind_run)
      case (stop e)
      with go(1) show thesis by (intro in_branch)
    next
      case inner: (go b s2)
      with go(1) show thesis by (intro pushed)
    qed
  qed
qed

lemma not_push_branch: "\<not> is_push (Local ''git rev-parse --abbrev-ref HEAD'')"
  by (simp add: prefix_def)

lemma not_push_contains: "\<not> is_push (Local (''git branch --contains '' @ c))"
  by (simp add: prefix_def)




lemma push_not_early: "\<not> early_call (Local (push_command u h p rp c b f))"
  by (simp add: push_command_def prefix_def)

text \<open>What the branch stage adds to the trace, and what it returns.\<close>

lemma seed_branch_cases:
  assumes "seed_branch ex rb c s = (r, s')"
  obtains (given) "truthy rb" "s' = s" "r = Inr (the rb)"
  | (no_branch) br where "\<not> truthy rb" "failed br" "env s' = env s"
      "trace s' = trace s @ [(Local ''git rev-parse --abbrev-ref HEAD'', br)]"
      "r = Inl (ExecutionFailure (Local ''git rev-parse --abbrev-ref HEAD''))"
  | (checked) br ls where "\<not> truthy rb" "\<not> failed br" "env s' = env s"
      "trace s' = trace s @ [(Local ''git rev-parse --abbrev-ref HEAD'', br),
                            (Local (''git branch --contains '' @ c), ls)]"
      "r = (if failed ls then Inl (ExecutionFailure (Local (''git branch --contains '' @ c)))
            else if \<not> sublist (''* '' @ out br) (out ls)
            then Inl (CommitNotInBranch (not_in_branch_message c (out br)))
            else Inr (out br))"
proof (cases "truthy rb")
  case True
  with seed_branch_given[OF assms True] show thesis by (intro given) simp_all
next
  case False
  from assms False show thesis
  proof (cases rule: seed_branch_run)
    case (no_branch br)
    with False show thesis by (intro that(2)[of br]) simp_all
  next
    case (checked br ls)
    with False show thesis by (intro that(3)[of br ls]) simp_all
  qed
qed

text \<open>Every run of \<open>git_seed\<close> has one of four shapes.\<close>

lemma git_seed_shape:
  assumes run: "git_seed ex rp commit rb iu us su rgu s = (r, s')"
    and tr: "trace s' = trace s @ new"
  obtains (early) e where "r = Inl e" "\<forall>x\<in>set new. early_call (fst x)"
  | (no_branch) n br where "\<not> truthy rb" "\<forall>x\<in>set n. early_call (fst x)" "failed br"
      "new = n @ [(Local ''git rev-parse --abbrev-ref HEAD'', br)]"
      "r = Inl (ExecutionFailure (Local ''git rev-parse --abbrev-ref HEAD''))"
  | (rejected) n c br ls where "\<not> truthy rb" "\<forall>x\<in>set n. early_call (fst x)" "\<not> failed br"
      "new = n @ [(Local ''git rev-parse --abbrev-ref HEAD'', br),
                  (Local (''git branch --contains '' @ c), ls)]"
      "failed ls \<or> \<not> sublist (''* '' @ out br) (out ls)"
      "r = (if failed ls then Inl (ExecutionFailure (Local (''git branch --contains '' @ c)))
            else Inl (CommitNotInBranch (not_in_branch_message c (out br))))"
  | (pushed) n nb c b pr where
      "new = n @ nb @ [(Local (push_command (push_user (env s) rgu su) (host (env s))
                                 (port (env s)) rp c b (push_force (env s))), pr)]"
      "\<forall>x\<in>set n. early_call (fst x)"
      "r = (if failed pr then Inl (NonFastForward (non_fast_forward_message c)) else Inr ())"
      "if truthy commit then c = the commit
       else \<exists>hr. (Local ''git rev-parse HEAD'', hr) \<in> set n \<and> c = out hr"
      "if truthy rb then nb = [] \<and> b = the rb
       else \<exists>br ls. nb = [(Local ''git rev-parse --abbrev-ref HEAD'', br),
                            (Local (''git branch --contains '' @ c), ls)]
                   \<and> \<not> failed br \<and> \<not> failed ls \<and> b = out br \<and> sublist (''* '' @ b) (out ls)"
  using run
proof (cases rule: git_seed_run)
  case (in_commit e)
  from issues_run[OF issues_seed_commit in_commit(1)] obtain n
    where n: "trace s' = trace s @ n" "\<forall>x\<in>set n. early_call (fst x)" by auto
  from n(1) tr have "new = n" by simp
  with n(2) have "\<forall>x\<in>set new. early_call (fst x)" by blast
  with in_commit(2) show ?thesis by (rule early)
next
  case (in_branch c s1 e)
  from issues_run[OF issues_seed_commit in_branch(1)] obtain n
    where n: "trace s1 = trace s @ n" "\<forall>x\<in>set n. early_call (fst x)" by auto
  from in_branch(2) show ?thesis
  proof (cases rule: seed_branch_cases)
    case given
    with in_branch(3) show ?thesis by simp
  next
    case (no_branch br)
    from no_branch(4) n(1) tr have "new = n @ [(Local ''git rev-parse --abbrev-ref HEAD'', br)]"
      by simp
    with no_branch(1,2,5) n(2) in_branch(3) show ?thesis by (intro that(2)[of n br]) simp_all
  next
    case (checked br ls)
    from checked(4) n(1) tr have new: "new = n @ [(Local ''git rev-parse --abbrev-ref HEAD'', br),
                  (Local (''git branch --contains '' @ c), ls)]"
      by simp
    from checked(5) in_branch(3) have bad: "failed ls \<or> \<not> sublist (''* '' @ out br) (out ls)"
      by (cases "failed ls"; cases "sublist (''* '' @ out br) (out ls)") simp_all
    from checked(5) bad in_branch(3) have r: "r = (if failed ls
            then Inl (ExecutionFailure (Local (''git branch --contains '' @ c)))
            else Inl (CommitNotInBranch (not_in_branch_message c (out br))))"
      by (cases "failed ls") simp_all
    from checked(1) n(2) checked(2) new bad r show ?thesis by (rule that(3)[of n br c ls])
  qed
next
  case (pushed c s1 b s2)
  from issues_run[OF issues_seed_commit pushed(1)] obtain n
    where n: "env s1 = env s" "trace s1 = trace s @ n" "\<forall>x\<in>set n. early_call (fst x)" by auto
  note cr = seed_commit_result[OF pushed(1) n(2)]
  from pushed(2) obtain nb where nb: "env s2 = env s1" "trace s2 = trace s1 @ nb"
    "if truthy rb then nb = [] \<and> b = the rb
       else \<exists>br ls. nb = [(Local ''git rev-parse --abbrev-ref HEAD'', br),
                            (Local (''git branch --contains '' @ c), ls)]
                   \<and> \<not> failed br \<and> \<not> failed ls \<and> b = out br \<and> sublist (''* '' @ b) (out ls)"
  proof (cases rule: seed_branch_cases)
    case given
    then show ?thesis by (intro that[of "[]"]) simp_all
  next
    case (no_branch br)
    then show ?thesis by simp
  next
    case (checked br ls)
    from checked(5) have ok: "\<not> failed ls" "sublist (''* '' @ out br) (out ls)" "b = out br"
      by (cases "failed ls"; cases "sublist (''* '' @ out br) (out ls)"; simp)+
    show ?thesis
    proof (rule that[of "[(Local ''git rev-parse --abbrev-ref HEAD'', br),
                            (Local (''git branch --contains '' @ c), ls)]"])
      show "env s2 = env s1" by (rule checked(3))
      show "trace s2 = trace s1 @ [(Local ''git rev-parse --abbrev-ref HEAD'', br),
                            (Local (''git branch --contains '' @ c), ls)]" by (rule checked(4))
      from checked(1,2) ok show "if truthy rb then [(Local ''git rev-parse --abbrev-ref HEAD'', br),
                            (Local (''git branch --contains '' @ c), ls)] = [] \<and> b = the rb
       else \<exists>br' ls'. [(Local ''git rev-parse --abbrev-ref HEAD'', br),
                            (Local (''git branch --contains '' @ c), ls)]
                      = [(Local ''git rev-parse --abbrev-ref HEAD'', br'),
                            (Local (''git branch --contains '' @ c), ls')]
                   \<and> \<not> failed br' \<and> \<not> failed ls' \<and> b = out br' \<and> sublist (''* '' @ b) (out ls')"
        by simp
    qed
  qed
  from pushed(3) obtain pr where pr:
    "trace s' = trace s2 @ [(Local (push_command (push_user (env s2) rgu su) (host (env s2))
                                     (port (env s2)) rp c b (push_force (env s2))), pr)]"
    "r = (if failed pr then Inl (NonFastForward (non_fast_forward_message c)) else Inr ())"
    by (rule seed_push_run)
  from n(1) nb(1) have e: "env s2 = env s" by simp
  from pr(1) n(2) nb(2) tr e
  have new: "new = n @ nb @ [(Local (push_command (push_user (env s) rgu su) (host (env s))
                                 (port (env s)) rp c b (push_force (env s))), pr)]"
    by simp
  from new n(3) pr(2) cr nb(3) show ?thesis by (rule that(4)[of n nb c b pr])
qed




lemma push_not_contains_cmd: "push_command u h p rp c b f \<noteq> ''git branch --contains '' @ c'"
  by (simp add: push_command_def)

lemma early_no_push:
  assumes "\<forall>x\<in>set n. early_call (fst x)" and "(c, p) \<in> set n" and "is_push c"
  shows False
proof -
  from assms(1,2) have "early_call (fst (c, p))" by (rule bspec)
  then have "early_call c" by simp
  with assms(3) show False by (simp add: early_call_not_push)
qed

lemma message_names_override:
  "sublist ''gitric.api.force_push'' (non_fast_forward_message c)"
proof -
  have "non_fast_forward_message c =
      (c @ '' is a non-fast-forward'' @ [CHR 0x0A] @
       ''push. The seed will abort so you don'' @ [CHR 0x27] @
       ''t lose information. If you are doing this'' @ [CHR 0x0A] @
       ''intentionally import '') @ ''gitric.api.force_push'' @ '' and add it to your call.''"
    by (simp add: non_fast_forward_message_def)
  then show ?thesis unfolding sublist_def by blast
qed

lemma not_push_in:
  assumes "\<forall>x\<in>set n. \<not> is_push (fst x)" and "(c, p) \<in> set n" and "is_push c"
  shows False
proof -
  from assms(1,2) have "\<not> is_push (fst (c, p))" by (rule bspec)
  with assms(3) show False by simp
qed

lemma early_then_not_push:
  assumes "\<forall>x\<in>set n. early_call (fst x)"
  shows "\<forall>x\<in>set n. \<not> is_push (fst x)"
proof
  fix x assume "x \<in> set n"
  with assms have "early_call (fst x)" by (rule bspec)
  then show "\<not> is_push (fst x)" by (rule early_call_not_push)
qed

text \<open>A push in the trace of a run is its last invocation, and decides the result.\<close>

lemma git_seed_push_entry:
  assumes run: "git_seed ex rp commit rb iu us su rgu s = (r, s')"
    and tr: "trace s' = trace s @ new"
    and entry: "(c, p) \<in> set new" "is_push c"
  obtains n nb cm b where
      "new = n @ nb @ [(c, p)]" "\<forall>x\<in>set (n @ nb). \<not> is_push (fst x)"
      "\<forall>x\<in>set n. early_call (fst x)"
      "c = Local (push_command (push_user (env s) rgu su) (host (env s)) (port (env s))
                    rp cm b (push_force (env s)))"
      "r = (if failed p then Inl (NonFastForward (non_fast_forward_message cm)) else Inr ())"
      "if truthy commit then cm = the commit
       else \<exists>hr. (Local ''git rev-parse HEAD'', hr) \<in> set n \<and> cm = out hr"
      "if truthy rb then nb = [] \<and> b = the rb
       else \<exists>br ls. nb = [(Local ''git rev-parse --abbrev-ref HEAD'', br),
                            (Local (''git branch --contains '' @ cm), ls)]
                   \<and> \<not> failed br \<and> \<not> failed ls \<and> b = out br \<and> sublist (''* '' @ b) (out ls)"
  using run tr
proof (cases rule: git_seed_shape)
  case (early e)
  from early(2) entry have False by (rule early_no_push)
  then show ?thesis ..
next
  case (no_branch n br)
  have "\<forall>x\<in>set new. \<not> is_push (fst x)"
    unfolding no_branch(4) using early_then_not_push[OF no_branch(2)]
    by (simp add: not_push_branch)
  from this entry have False by (rule not_push_in)
  then show ?thesis ..
next
  case (rejected n c0 br ls)
  have "\<forall>x\<in>set new. \<not> is_push (fst x)"
    unfolding rejected(4) using early_then_not_push[OF rejected(2)]
    by (simp add: not_push_branch not_push_contains)
  from this entry have False by (rule not_push_in)
  then show ?thesis ..
next
  case (pushed n nb cm b pr)
  have nb_np: "\<forall>x\<in>set nb. \<not> is_push (fst x)"
  proof (cases "truthy rb")
    case True
    with pushed(5) show ?thesis by simp
  next
    case False
    with pushed(5) obtain br ls where "nb = [(Local ''git rev-parse --abbrev-ref HEAD'', br),
                            (Local (''git branch --contains '' @ cm), ls)]" by auto
    then show ?thesis by (simp add: not_push_branch not_push_contains)
  qed
  with early_then_not_push[OF pushed(2)]
  have np: "\<forall>x\<in>set (n @ nb). \<not> is_push (fst x)" by (simp add: ball_Un)
  let ?q = "(Local (push_command (push_user (env s) rgu su)
          (host (env s)) (port (env s)) rp cm b (push_force (env s))), pr)"
  from entry(1) have "(c, p) \<in> set (n @ nb) \<or> (c, p) = ?q"
    unfolding pushed(1) by auto
  moreover have "(c, p) \<notin> set (n @ nb)"
    using not_push_in[OF np _ entry(2)] by blast
  ultimately have x: "(c, p) = ?q" by simp
  from x pushed(1) have 1: "new = n @ nb @ [(c, p)]" by simp
  from x have 2: "c = Local (push_command (push_user (env s) rgu su) (host (env s))
          (port (env s)) rp cm b (push_force (env s)))" by simp
  from x pushed(3) have 3:
    "r = (if failed p then Inl (NonFastForward (non_fast_forward_message cm)) else Inr ())"
    by simp
  from 1 np pushed(2) 2 3 pushed(4) pushed(5) show ?thesis by (rule that)
qed








section \<open>The claims about the git operations\<close>

text \<open>
  C6. \<^verbatim>\<open>git_is_dirty\<close> answers False, without running anything, whenever the key
  \<^verbatim>\<open>gitric_allow_dirty\<close> is in \<^verbatim>\<open>env\<close>, whatever the executor would report. When the key is
  absent it runs \<^verbatim>\<open>git status --porcelain\<close> once, locally, with \<^verbatim>\<open>--untracked-files=no\<close>
  in the command exactly when untracked files are to be ignored, and, the command having
  succeeded, answers True exactly when its output is not empty.
\<close>

theorem git_is_dirty_override_or_status:
  "(gitric_allow_dirty (env s) \<noteq> None \<longrightarrow> git_is_dirty ex iu s = (Inr False, s)) \<and>
   (gitric_allow_dirty (env s) = None \<longrightarrow>
      (let cmd = ''git status '' @ (if iu then ''--untracked-files=no'' else '''') @ '' --porcelain'';
           r = fst (ex (world s) (Local cmd))
       in trace (snd (git_is_dirty ex iu s)) = trace s @ [(Local cmd, r)] \<and>
          (\<not> failed r \<longrightarrow> fst (git_is_dirty ex iu s) = Inr (out r \<noteq> ''''))))"
  by (auto simp: git_is_dirty_def bind_def get_env_def ret_def fab_local_def command_def
        invoke_def Let_def split: prod.splits)

theorem git_is_dirty_override_or_status_witness:
  "git_is_dirty (scripted (working_copy '' M gitric/api.py'' False)) False
     (state0\<lparr>env := env0\<lparr>gitric_allow_dirty := Some True\<rparr>\<rparr>)
     = (Inr False, state0\<lparr>env := env0\<lparr>gitric_allow_dirty := Some True\<rparr>\<rparr>) \<and>
   fst (git_is_dirty (scripted (working_copy '' M gitric/api.py'' False)) False state0) = Inr True \<and>
   fst (git_is_dirty (scripted (working_copy '''' False)) True state0) = Inr False"
  using git_is_dirty_override_or_status
          [of "state0\<lparr>env := env0\<lparr>gitric_allow_dirty := Some True\<rparr>\<rparr>"
              "scripted (working_copy '' M gitric/api.py'' False)" False]
        git_is_dirty_override_or_status
          [of state0 "scripted (working_copy '' M gitric/api.py'' False)" False]
        git_is_dirty_override_or_status
          [of state0 "scripted (working_copy '''' False)" True]
  by (simp add: state0_def env0_def scripted_def answer_def)

lemmas run_defs = git_seed_def git_is_dirty_def git_init_def git_head_rev_def
  git_current_branch_name_def bind_def ret_def abort_def get_env_def fab_local_def fab_exists_def
  do_cmd_def fab_run_def fab_sudo_def command_def invoke_def scripted_def answer_def failure_def
  state0_def env0_def forced_def push_command_def Let_def

text \<open>
  C10. Whenever the push of a run of \<^verbatim>\<open>git_seed\<close> comes back failed, the run aborts with the
  non-fast-forward message. Nothing is assumed about \<^verbatim>\<open>gitric_force_push\<close>: the abort is
  taken with the override set as well as without it.
\<close>

theorem git_seed_failed_push_aborts_regardless_of_force:
  assumes "git_seed ex repo_path commit remote_branch ignore_untracked_files use_sudo sudo_user
             remote_git_user s = (r, s')"
    and "trace s' = trace s @ new"
    and "(c, p) \<in> set new" and "is_push c" and "failed p"
  shows "\<exists>cm. r = Inl (NonFastForward (non_fast_forward_message cm)) \<and>
               (truthy commit \<longrightarrow> cm = the commit)"
  using assms(1-4)
proof (cases rule: git_seed_push_entry)
  case (1 n nb cm b)
  from 1(5) assms(5) have "r = Inl (NonFastForward (non_fast_forward_message cm))" by simp
  moreover from 1(6) have "truthy commit \<longrightarrow> cm = the commit" by simp
  ultimately show ?thesis by blast
qed

theorem git_seed_failed_push_aborts_regardless_of_force_witness:
  "gitric_force_push (env forced) = Some True \<and>
   (Local ''git push git+ssh://deploy@example.org:22/srv/repo abc123:refs/heads/main -f'', failure)
     \<in> set (trace (snd (git_seed (scripted (working_copy [] True)) ''/srv/repo'' (Some ''abc123'')
                           None False False None None forced))) \<and>
   failed failure \<and>
   fst (git_seed (scripted (working_copy [] True)) ''/srv/repo'' (Some ''abc123'') None False False
          None None forced)
     = Inl (NonFastForward (non_fast_forward_message ''abc123''))"
proof -
  let ?run = "git_seed (scripted (working_copy [] True)) ''/srv/repo'' (Some ''abc123'') None
                False False None None forced"
  let ?push = "Local ''git push git+ssh://deploy@example.org:22/srv/repo abc123:refs/heads/main -f''"
  have run: "?run = (fst ?run, snd ?run)" by simp
  have tr: "trace (snd ?run) = trace forced @
     [(Local ''git status  --porcelain'', answer []),
      (Exists False ''/srv/repo/.git'', answer []),
      (Run None ''git config receive.denyCurrentBranch ignore'', answer []),
      (Local ''git rev-parse --abbrev-ref HEAD'', answer ''main''),
      (Local ''git branch --contains abc123'', answer ''* main''),
      (?push, failure)]"
    by (auto simp: run_defs)
  have mem: "(?push, failure) \<in> set
     [(Local ''git status  --porcelain'', answer []),
      (Exists False ''/srv/repo/.git'', answer []),
      (Run None ''git config receive.denyCurrentBranch ignore'', answer []),
      (Local ''git rev-parse --abbrev-ref HEAD'', answer ''main''),
      (Local ''git branch --contains abc123'', answer ''* main''),
      (?push, failure)]"
    by simp
  have push: "is_push ?push" by simp
  have bad: "failed failure" by (simp add: failure_def)
  from git_seed_failed_push_aborts_regardless_of_force[OF run tr mem push bad]
  have "fst ?run = Inl (NonFastForward (non_fast_forward_message ''abc123''))" by simp
  moreover have "gitric_force_push (env forced) = Some True"
    by (simp add: forced_def state0_def)
  moreover from tr mem have "(?push, failure) \<in> set (trace (snd ?run))"
    by (simp add: forced_def state0_def)
  ultimately show ?thesis using bad by blast
qed

text \<open>
  C4. When the push of a run of \<^verbatim>\<open>git_seed\<close> comes back failed and \<^verbatim>\<open>gitric_force_push\<close> is not
  in \<^verbatim>\<open>env\<close>, the run aborts with the non-fast-forward message, the message names the override
  \<^verbatim>\<open>gitric.api.force_push\<close>, and the failed push is the only push of the run and its last
  invocation: it is not tried again.
\<close>

theorem git_seed_failed_push_not_forced:
  assumes "git_seed ex repo_path commit remote_branch ignore_untracked_files use_sudo sudo_user
             remote_git_user s = (r, s')"
    and "trace s' = trace s @ new"
    and "(c, p) \<in> set new" and "is_push c" and "failed p"
    and "gitric_force_push (env s) = None"
  shows "\<exists>cm. r = Inl (NonFastForward (non_fast_forward_message cm)) \<and>
           sublist ''gitric.api.force_push'' (non_fast_forward_message cm) \<and>
           filter (\<lambda>x. is_push (fst x)) new = [(c, p)] \<and> last new = (c, p)"
  using assms(1-4)
proof (cases rule: git_seed_push_entry)
  case (1 n nb cm b)
  from 1(1,2) assms(4) have "filter (\<lambda>x. is_push (fst x)) new = [(c, p)]" by simp
  moreover from 1(1) have "last new = (c, p)" by simp
  moreover from 1(5) assms(5) have "r = Inl (NonFastForward (non_fast_forward_message cm))"
    by simp
  ultimately show ?thesis using message_names_override by blast
qed

theorem git_seed_failed_push_not_forced_witness:
  "gitric_force_push (env state0) = None \<and>
   failed failure \<and>
   trace (snd (git_seed (scripted (working_copy [] True)) ''/srv/repo'' None None False False
                 None None state0))
     = [(Local ''git status  --porcelain'', answer []),
        (Exists False ''/srv/repo/.git'', answer []),
        (Run None ''git config receive.denyCurrentBranch ignore'', answer []),
        (Local ''git rev-parse HEAD'', answer ''abc123''),
        (Local ''git rev-parse --abbrev-ref HEAD'', answer ''main''),
        (Local ''git branch --contains abc123'', answer ''* main''),
        (Local ''git push git+ssh://deploy@example.org:22/srv/repo abc123:refs/heads/main '',
         failure)] \<and>
   (\<exists>cm. fst (git_seed (scripted (working_copy [] True)) ''/srv/repo'' None None False False
                 None None state0)
           = Inl (NonFastForward (non_fast_forward_message cm)) \<and>
         sublist ''gitric.api.force_push'' (non_fast_forward_message cm))"
proof -
  let ?run = "git_seed (scripted (working_copy [] True)) ''/srv/repo'' None None False False
                None None state0"
  let ?push = "Local ''git push git+ssh://deploy@example.org:22/srv/repo abc123:refs/heads/main ''"
  let ?new = "[(Local ''git status  --porcelain'', answer []),
        (Exists False ''/srv/repo/.git'', answer []),
        (Run None ''git config receive.denyCurrentBranch ignore'', answer []),
        (Local ''git rev-parse HEAD'', answer ''abc123''),
        (Local ''git rev-parse --abbrev-ref HEAD'', answer ''main''),
        (Local ''git branch --contains abc123'', answer ''* main''),
        (?push, failure)]"
  have run: "?run = (fst ?run, snd ?run)" by simp
  have tr0: "trace (snd ?run) = ?new" by (auto simp: run_defs)
  then have tr: "trace (snd ?run) = trace state0 @ ?new" by (simp add: state0_def)
  have mem: "(?push, failure) \<in> set ?new" by simp
  have push: "is_push ?push" by simp
  have bad: "failed failure" by (simp add: failure_def)
  have unforced: "gitric_force_push (env state0) = None" by (simp add: state0_def env0_def)
  from git_seed_failed_push_not_forced[OF run tr mem push bad unforced]
  have "\<exists>cm. fst ?run = Inl (NonFastForward (non_fast_forward_message cm)) \<and>
         sublist ''gitric.api.force_push'' (non_fast_forward_message cm)" by blast
  with unforced bad tr0 show ?thesis by blast
qed



text \<open>
  C2. When \<^verbatim>\<open>git_is_dirty\<close> answers True, \<^verbatim>\<open>git_seed\<close> aborts with the dirty-working-copy
  message in the state the check left: the only invocations made are those of the check,
  none of them remote, and none a push.
\<close>

theorem git_seed_dirty_aborts_before_remote:
  assumes "fst (git_is_dirty ex ignore_untracked_files s) = Inr True"
  shows "git_seed ex repo_path commit remote_branch ignore_untracked_files use_sudo sudo_user
           remote_git_user s
         = (Inl (DirtyWorkingCopy dirty_message), snd (git_is_dirty ex ignore_untracked_files s)) \<and>
         (\<exists>new. trace (snd (git_seed ex repo_path commit remote_branch ignore_untracked_files
                               use_sudo sudo_user remote_git_user s)) = trace s @ new \<and>
                filter (\<lambda>x. is_remote (fst x) \<or> is_push (fst x)) new = [])"
proof -
  obtain s1 where d: "git_is_dirty ex ignore_untracked_files s = (Inr True, s1)"
    using assms by (cases "git_is_dirty ex ignore_untracked_files s") simp
  then have run: "git_seed ex repo_path commit remote_branch ignore_untracked_files use_sudo
                    sudo_user remote_git_user s = (Inl (DirtyWorkingCopy dirty_message), s1)"
    by (simp add: git_seed_def bind_def abort_def)
  have "issues (\<lambda>c. \<not> is_remote c \<and> \<not> is_push c) (git_is_dirty ex ignore_untracked_files)"
    by (rule issues_git_is_dirty) (auto simp: prefix_def)
  from issues_run[OF this d] obtain new where "trace s1 = trace s @ new"
    and "\<forall>x\<in>set new. \<not> is_remote (fst x) \<and> \<not> is_push (fst x)" by auto
  then have "trace s1 = trace s @ new \<and>
      filter (\<lambda>x. is_remote (fst x) \<or> is_push (fst x)) new = []"
    by (simp add: filter_empty_conv)
  with run d show ?thesis by auto
qed

theorem git_seed_dirty_aborts_before_remote_witness:
  "fst (git_is_dirty (scripted (working_copy '' M gitric/api.py'' False)) False state0) = Inr True \<and>
   fst (git_seed (scripted (working_copy '' M gitric/api.py'' False)) ''/srv/repo'' None None
          False False None None state0) = Inl (DirtyWorkingCopy dirty_message) \<and>
   trace (snd (git_seed (scripted (working_copy '' M gitric/api.py'' False)) ''/srv/repo'' None
                 None False False None None state0))
     = [(Local ''git status  --porcelain'', answer '' M gitric/api.py'')]"
proof -
  let ?ex = "scripted (working_copy '' M gitric/api.py'' False)"
  have dirty: "fst (git_is_dirty ?ex False state0) = Inr True" by (auto simp: run_defs)
  have "snd (git_is_dirty ?ex False state0)
        = state0\<lparr>trace := [(Local ''git status  --porcelain'', answer '' M gitric/api.py'')]\<rparr>"
    by (auto simp: run_defs)
  with git_seed_dirty_aborts_before_remote[OF dirty, of "''/srv/repo''" None None False None None]
    dirty show ?thesis by simp
qed



section \<open>Lemmas about the remote host\<close>

text \<open>A command line made of words, with one space between them, splits into these words.\<close>

lemma split_sp_append:
  "CHR '' '' \<notin> set v \<Longrightarrow> split_sp w (v @ cs) = split_sp (w @ v) cs"
  by (induction v arbitrary: w) auto

lemma split_sp_last: "CHR '' '' \<notin> set v \<Longrightarrow> split_sp w v = (if w @ v = [] then [] else [w @ v])"
  using split_sp_append[of v w "[]"] by simp

lemma split_sp_word: "word v \<Longrightarrow> split_sp [] (v @ CHR '' '' # cs) = v # split_sp [] cs"
  by (simp add: split_sp_append word_def)

lemma split_sp_word_end: "word v \<Longrightarrow> split_sp [] v = [v]"
  by (simp add: split_sp_last word_def)

lemma words_ln_s:
  "word a \<Longrightarrow> word b \<Longrightarrow> sh_words (ln_s_command a b) = [''ln'', ''-s'', a, b]"
  by (simp add: ln_s_command_def sh_words_def split_sp_word split_sp_word_end)

lemma words_ln_nsf:
  "word a \<Longrightarrow> word b \<Longrightarrow> sh_words (ln_nsf_command a b) = [''ln'', ''-nsf'', a, b]"
  by (simp add: ln_nsf_command_def sh_words_def split_sp_word split_sp_word_end)

lemma words_readlink:
  "word a \<Longrightarrow> sh_words (readlink_command a) = [''readlink'', ''-f'', a]"
  by (simp add: readlink_command_def sh_words_def split_sp_word_end)

lemma words_mkdir_plain:
  "word a \<Longrightarrow> word b \<Longrightarrow> word c \<Longrightarrow> word d \<Longrightarrow> word e \<Longrightarrow>
   sh_words (''mkdir -p '' @ a @ '' '' @ b @ '' '' @ c @ '' '' @ d @ '' '' @ e)
     = [''mkdir'', ''-p'', a, b, c, d, e]"
  by (simp add: sh_words_def split_sp_word split_sp_word_end)

lemma word_append: "word a \<Longrightarrow> CHR '' '' \<notin> set b \<Longrightarrow> word (a @ b)"
  by (simp add: word_def)

lemma words_mkdir:
  assumes "word r" "word b" "word g"
  shows "sh_words (mkdir_command r b g) = [''mkdir'', ''-p'', r, b, g, b @ ''/etc'', g @ ''/etc'']"
proof -
  have "mkdir_command r b g
        = ''mkdir -p '' @ r @ '' '' @ b @ '' '' @ g @ '' '' @ (b @ ''/etc'') @ '' '' @ (g @ ''/etc'')"
    by (simp add: mkdir_command_def)
  moreover have "word (b @ ''/etc'')" "word (g @ ''/etc'')"
    using assms by (simp_all add: word_append)
  ultimately show ?thesis using assms by (simp only: words_mkdir_plain)
qed

lemma path_char_not_space: "path_char c \<Longrightarrow> c \<noteq> CHR '' ''"
  by (auto simp: path_char_def)

lemma canonical_word: "canonical_path p \<Longrightarrow> word p"
  by (auto simp: canonical_path_def word_def list_all_iff dest: path_char_not_space)

text \<open>Links, existence and the commands on paths that are absent, directories or links to directories.\<close>

lemma follow_plain: "(\<And>t. fs p \<noteq> Some (Link t)) \<Longrightarrow> follow k fs p = Some p"
  by (cases k; cases "fs p") (auto split: node.splits)

lemma resolve_plain: "(\<And>t. fs p \<noteq> Some (Link t)) \<Longrightarrow> resolve fs p = Some p"
  by (simp add: resolve_def follow_plain)

lemma follow_link:
  assumes "fs p = Some (Link t)" and "\<And>u. fs t \<noteq> Some (Link u)" and "0 < k"
  shows "follow k fs p = Some t"
proof -
  from assms(3) obtain j where "k = Suc j" by (cases k) auto
  moreover have "follow j fs t = Some t" using assms(2) by (rule follow_plain)
  ultimately show ?thesis using assms(1) by simp
qed

lemma resolve_link:
  assumes "fs p = Some (Link t)" and "\<And>u. fs t \<noteq> Some (Link u)"
  shows "resolve fs p = Some t"
  unfolding resolve_def using assms by (rule follow_link) simp

lemma not_exists_absent: "fs p = None \<Longrightarrow> \<not> fs_exists fs p"
  by (simp add: fs_exists_def resolve_plain)

lemma not_dir_absent: "fs p = None \<Longrightarrow> \<not> is_dir fs p"
  by (simp add: is_dir_def resolve_plain)

lemma is_dir_dir: "fs p = Some Dir \<Longrightarrow> is_dir fs p"
  by (simp add: is_dir_def resolve_plain)

lemma exists_link_to_dir: "fs p = Some (Link t) \<Longrightarrow> fs t = Some Dir \<Longrightarrow> fs_exists fs p"
  by (simp add: fs_exists_def resolve_link)

lemma resolve_link_to_dir: "fs p = Some (Link t) \<Longrightarrow> fs t = Some Dir \<Longrightarrow> resolve fs p = Some t"
  by (simp add: resolve_link)

lemma mkdir_p_plain: "dir_or_absent fs p \<Longrightarrow> mkdir_p fs p = (True, fs(p \<mapsto> Dir))"
  unfolding dir_or_absent_def
proof (erule disjE)
  assume "fs p = None"
  then show ?thesis by (simp add: mkdir_p_def not_dir_absent)
next
  assume d: "fs p = Some Dir"
  then have "fs(p \<mapsto> Dir) = fs" by (simp add: map_upd_triv)
  with d show ?thesis by (simp add: mkdir_p_def is_dir_dir)
qed

lemma dir_or_absent_upd: "dir_or_absent fs p \<Longrightarrow> dir_or_absent (fs(q \<mapsto> Dir)) p"
  by (simp add: dir_or_absent_def)

lemma mkdir_p_all_tree:
  assumes "tree_ready fs r"
  shows "mkdir_p_all fs [r, r @ ''/blue'', r @ ''/green'', r @ ''/blue/etc'', r @ ''/green/etc'']
         = (True, with_tree fs r)"
  using assms
  by (simp add: tree_ready_def with_tree_def mkdir_p_plain dir_or_absent_upd)

lemma ln_s_absent: "fs l = None \<Longrightarrow> ln_s fs t l = (True, fs(l \<mapsto> Link t))"
  by (simp add: ln_s_def not_dir_absent)

lemma ln_nsf_plain: "fs l \<noteq> Some Dir \<Longrightarrow> ln_nsf fs t l = (True, fs(l \<mapsto> Link t))"
  by (simp add: ln_nsf_def)

text \<open>What the executor of the host does with the command lines of the two operations.\<close>

lemma host_mkdir:
  assumes "word r" and "tree_ready fs r"
  shows "remote_host fs (Run None (mkdir_command r (r @ ''/blue'') (r @ ''/green'')))
         = (answer '''', with_tree fs r)"
proof -
  from assms(1) have "word (r @ ''/blue'')" "word (r @ ''/green'')"
    by (simp_all add: word_append)
  with assms(1) have "sh_words (mkdir_command r (r @ ''/blue'') (r @ ''/green''))
      = [''mkdir'', ''-p'', r, r @ ''/blue'', r @ ''/green'', r @ ''/blue/etc'', r @ ''/green/etc'']"
    by (simp add: words_mkdir)
  then show ?thesis
    by (simp add: sh_def outcome_def mkdir_p_all_tree[OF assms(2)] del: mkdir_p_all.simps)
qed

lemma host_ln_s:
  assumes "word t" "word l" "fs l = None"
  shows "remote_host fs (Run None (ln_s_command t l)) = (answer '''', fs(l \<mapsto> Link t))"
  using assms by (simp add: words_ln_s sh_def outcome_def ln_s_absent)

lemma host_ln_nsf:
  assumes "word t" "word l" "fs l \<noteq> Some Dir"
  shows "remote_host fs (Run None (ln_nsf_command t l)) = (answer '''', fs(l \<mapsto> Link t))"
  using assms by (simp add: words_ln_nsf sh_def outcome_def ln_nsf_plain)

lemma host_readlink:
  assumes "word p" "resolve fs p = Some q"
  shows "remote_host fs (Run None (readlink_command p)) = (answer q, fs)"
  using assms by (simp add: words_readlink sh_def readlink_f_def)

section \<open>Lemmas about the blue/green operations\<close>

text \<open>\<open>init_bluegreen\<close> is its three stages after \<^verbatim>\<open>require\<close>.\<close>

lemma init_bluegreen_split:
  "init_bluegreen ex =
     bind (require [''bluegreen_root'', ''bluegreen_ports'']) (\<lambda>_.
     bind init_paths (\<lambda>_.
     bind get_env (\<lambda>e.
     bind (init_links ex e) (\<lambda>_. init_derive ex e))))"
  unfolding init_bluegreen_def init_paths_def init_links_def init_derive_def bind_assoc
  by (rule refl)

text \<open>Runs of the single steps on the host.\<close>

lemma require_run:
  "list_all (env_has (env s)) keys \<Longrightarrow> require keys s = (Inr (), s)"
  by (simp add: require_def bind_def get_env_def ret_def filter_empty_conv list_all_iff)

lemma answer_ok: "\<not> failed (answer text)"
  by (simp add: answer_def)

lemma run_ok:
  assumes "remote_host (world s) (Run None c) = (r, w)" and "\<not> failed r"
  shows "fab_run remote_host False None c s
         = (Inr r, s\<lparr>world := w, trace := trace s @ [(Run None c, r)]\<rparr>)"
  using assms by (simp add: fab_run_def command_def invoke_def)

lemma exists_run:
  "fab_exists remote_host p False s
   = (Inr (fs_exists (world s) p),
      s\<lparr>trace := trace s @ [(Exists False p, if fs_exists (world s) p then answer '''' else failure)]\<rparr>)"
  by (simp add: fab_exists_def invoke_def answer_def failure_def)

lemma run_mkdir:
  assumes "word r" and "tree_ready (world s) r"
  shows "fab_run remote_host False None (mkdir_command r (r @ ''/blue'') (r @ ''/green'')) s
         = (Inr (answer ''''),
            s\<lparr>world := with_tree (world s) r,
              trace := trace s @
                [(Run None (mkdir_command r (r @ ''/blue'') (r @ ''/green'')), answer '''')]\<rparr>)"
  by (rule run_ok[OF host_mkdir[of r "world s", OF assms] answer_ok])

lemma run_ln_s:
  assumes "word t" "word l" "world s l = None"
  shows "fab_run remote_host False None (ln_s_command t l) s
         = (Inr (answer ''''),
            s\<lparr>world := (world s)(l \<mapsto> Link t),
              trace := trace s @ [(Run None (ln_s_command t l), answer '''')]\<rparr>)"
  by (rule run_ok[OF host_ln_s[of t l "world s", OF assms] answer_ok])

lemma run_ln_nsf:
  assumes "word t" "word l" "world s l \<noteq> Some Dir"
  shows "fab_run remote_host False None (ln_nsf_command t l) s
         = (Inr (answer ''''),
            s\<lparr>world := (world s)(l \<mapsto> Link t),
              trace := trace s @ [(Run None (ln_nsf_command t l), answer '''')]\<rparr>)"
  by (rule run_ok[OF host_ln_nsf[of t l "world s", OF assms] answer_ok])

lemma run_readlink:
  assumes "word p" "resolve (world s) p = Some q"
  shows "fab_run remote_host False None (readlink_command p) s
         = (Inr (answer q), s\<lparr>trace := trace s @ [(Run None (readlink_command p), answer q)]\<rparr>)"
proof -
  have "fab_run remote_host False None (readlink_command p) s
        = (Inr (answer q),
           s\<lparr>world := world s, trace := trace s @ [(Run None (readlink_command p), answer q)]\<rparr>)"
    by (rule run_ok[OF host_readlink[of p "world s" q, OF assms] answer_ok])
  then show ?thesis by simp
qed

text \<open>The paths of the layout and the directories made.\<close>

lemma join_plain:
  "a \<noteq> [] \<Longrightarrow> last a \<noteq> CHR ''/'' \<Longrightarrow> b \<noteq> [] \<Longrightarrow> hd b \<noteq> CHR ''/'' \<Longrightarrow>
   os_path_join a b = a @ ''/'' @ b"
  by (simp add: os_path_join_def)

lemma canonical_join:
  "canonical_path r \<Longrightarrow> b \<noteq> [] \<Longrightarrow> hd b \<noteq> CHR ''/'' \<Longrightarrow> os_path_join r b = r @ ''/'' @ b"
  by (simp add: join_plain canonical_path_def)

lemma init_paths_run:
  assumes "bluegreen_root (env s) = Some r" and "canonical_path r"
  shows "init_paths s =
     (Inr (), s\<lparr>env := (env s)\<lparr>green_path := Some (r @ ''/green''), blue_path := Some (r @ ''/blue''),
                             next_path_abs := Some (r @ ''/next''),
                             live_path_abs := Some (r @ ''/live'')\<rparr>\<rparr>)"
  using assms
  by (simp add: init_paths_def bind_def set_env_def canonical_join)

lemma with_tree_link:
  "with_tree fs r (r @ ''/live'') = fs (r @ ''/live'')"
  "with_tree fs r (r @ ''/next'') = fs (r @ ''/next'')"
  by (simp_all add: with_tree_def)

lemma with_tree_slot:
  "with_tree fs r (r @ ''/blue'') = Some Dir"
  "with_tree fs r (r @ ''/green'') = Some Dir"
  by (simp_all add: with_tree_def)

lemma basename_slot:
  "basename (r @ ''/blue'') = ''blue''" "basename (r @ ''/green'') = ''green''"
  by (simp_all add: basename_def)

text \<open>The stages of \<open>init_bluegreen\<close>, and the whole of it, on a fresh host and on one with links.\<close>

lemma slot_dir: "slot r p \<Longrightarrow> with_tree fs r p = Some Dir"
  by (auto simp: slot_def with_tree_slot)

lemma slot_word: "word r \<Longrightarrow> slot r p \<Longrightarrow> word p"
  by (auto simp: slot_def word_append)

lemma init_links_fresh:
  assumes e: "bluegreen_root e = Some r" "blue_path e = Some (r @ ''/blue'')"
      "green_path e = Some (r @ ''/green'')" "live_path_abs e = Some (r @ ''/live'')"
      "next_path_abs e = Some (r @ ''/next'')"
    and r: "word r" and tree: "tree_ready (world s) r" and fresh: "fresh (world s) r"
  shows "init_links remote_host e s =
     (Inr (),
      s\<lparr>world := (with_tree (world s) r)(r @ ''/live'' \<mapsto> Link (r @ ''/blue''),
                                           r @ ''/next'' \<mapsto> Link (r @ ''/green'')),
        trace := trace s @
          [(Run None (mkdir_command r (r @ ''/blue'') (r @ ''/green'')), answer ''''),
           (Exists False (r @ ''/live''), failure),
           (Run None (ln_s_command (r @ ''/blue'') (r @ ''/live'')), answer ''''),
           (Exists False (r @ ''/next''), failure),
           (Run None (ln_s_command (r @ ''/green'') (r @ ''/next'')), answer '''')]\<rparr>)"
proof -
  have w: "word (r @ ''/blue'')" "word (r @ ''/green'')" "word (r @ ''/live'')"
    "word (r @ ''/next'')"
    using r by (simp_all add: word_append)
  have absent: "world s (r @ ''/live'') = None" "world s (r @ ''/next'') = None"
    using fresh by (simp_all add: fresh_def)
  have no: "\<And>fs p. fs p = None \<Longrightarrow> fs_exists fs p = False"
    by (simp add: not_exists_absent)
  show ?thesis
    using r tree
    by (simp add: init_links_def e bind_def ret_def exists_run run_mkdir run_ln_s w absent
        with_tree_link no)
qed

lemma init_links_paired:
  assumes e: "bluegreen_root e = Some r" "blue_path e = Some (r @ ''/blue'')"
      "green_path e = Some (r @ ''/green'')" "live_path_abs e = Some (r @ ''/live'')"
      "next_path_abs e = Some (r @ ''/next'')"
    and r: "word r" and tree: "tree_ready (world s) r"
    and links: "world s (r @ ''/live'') = Some (Link x)" "world s (r @ ''/next'') = Some (Link y)"
    and slots: "slot r x" "slot r y"
  shows "init_links remote_host e s =
     (Inr (),
      s\<lparr>world := with_tree (world s) r,
        trace := trace s @
          [(Run None (mkdir_command r (r @ ''/blue'') (r @ ''/green'')), answer ''''),
           (Exists False (r @ ''/live''), answer ''''),
           (Exists False (r @ ''/next''), answer '''')]\<rparr>)"
proof -
  have live: "fs_exists (with_tree (world s) r) (r @ ''/live'')"
    by (rule exists_link_to_dir[of _ _ x]) (simp_all add: with_tree_link links slot_dir slots)
  have "next": "fs_exists (with_tree (world s) r) (r @ ''/next'')"
    by (rule exists_link_to_dir[of _ _ y]) (simp_all add: with_tree_link links slot_dir slots)
  show ?thesis
    using r tree
    by (simp add: init_links_def e bind_def ret_def exists_run run_mkdir live "next")
qed

lemma init_derive_run:
  assumes e: "live_path_abs e = Some l" "next_path_abs e = Some n"
    and w: "word l" "word n"
    and res: "resolve (world s) l = Some x" "resolve (world s) n = Some y"
  shows "init_derive remote_host e s =
     (Inr (),
      s\<lparr>env := (env s)\<lparr>next_path := Some y, live_path := Some x,
                        virtualenv_path := Some (os_path_join y ''env''),
                        pidfile := Some (os_path_join (os_path_join y ''etc'') ''app.pid''),
                        nginx_conf := Some (os_path_join (os_path_join y ''etc'') ''nginx.conf''),
                        color := Some (basename y),
                        bluegreen_port := map_of (the (bluegreen_ports (env s))) (basename y)\<rparr>,
        trace := trace s @ [(Run None (readlink_command n), answer y),
                            (Run None (readlink_command l), answer x)]\<rparr>)"
  using w res
  by (simp add: init_derive_def e bind_def set_env_def run_readlink answer_def)

lemma require_init:
  assumes "bluegreen_root (env s) = Some r" "bluegreen_ports (env s) = Some ps" "ps \<noteq> []"
  shows "require [''bluegreen_root'', ''bluegreen_ports''] s = (Inr (), s)"
  using assms by (simp add: require_run env_has_def)

lemma init_fresh:
  assumes root: "bluegreen_root (env s) = Some r" and ports: "bluegreen_ports (env s) = Some ps"
    and ps: "ps \<noteq> []" and canon: "canonical_path r"
    and tree: "tree_ready (world s) r" and fresh: "fresh (world s) r"
  shows "init_bluegreen remote_host s =
     (Inr (),
      s\<lparr>env := layout_env (env s) r (r @ ''/blue'') (r @ ''/green''),
        world := (with_tree (world s) r)(r @ ''/live'' \<mapsto> Link (r @ ''/blue''),
                                           r @ ''/next'' \<mapsto> Link (r @ ''/green'')),
        trace := trace s @ fresh_init_trace r\<rparr>)"
proof -
  let ?e1 = "(env s)\<lparr>green_path := Some (r @ ''/green''), blue_path := Some (r @ ''/blue''),
                             next_path_abs := Some (r @ ''/next''),
                             live_path_abs := Some (r @ ''/live'')\<rparr>"
  let ?s1 = "s\<lparr>env := ?e1\<rparr>"
  let ?w2 = "(with_tree (world s) r)(r @ ''/live'' \<mapsto> Link (r @ ''/blue''),
                                           r @ ''/next'' \<mapsto> Link (r @ ''/green''))"
  let ?s2 = "?s1\<lparr>world := ?w2,
        trace := trace ?s1 @
          [(Run None (mkdir_command r (r @ ''/blue'') (r @ ''/green'')), answer ''''),
           (Exists False (r @ ''/live''), failure),
           (Run None (ln_s_command (r @ ''/blue'') (r @ ''/live'')), answer ''''),
           (Exists False (r @ ''/next''), failure),
           (Run None (ln_s_command (r @ ''/green'') (r @ ''/next'')), answer '''')]\<rparr>"
  have r: "word r" using canon by (rule canonical_word)
  have w: "word (r @ ''/live'')" "word (r @ ''/next'')" using r by (simp_all add: word_append)
  have a: "require [''bluegreen_root'', ''bluegreen_ports''] s = (Inr (), s)"
    using root ports ps by (rule require_init)
  have b: "init_paths s = (Inr (), ?s1)" using root canon by (rule init_paths_run)
  have c: "init_links remote_host ?e1 ?s1 = (Inr (), ?s2)"
    using init_links_fresh[of ?e1 r ?s1] root r tree fresh by simp
  have res: "resolve (world ?s2) (r @ ''/live'') = Some (r @ ''/blue'')"
    "resolve (world ?s2) (r @ ''/next'') = Some (r @ ''/green'')"
    by (simp_all add: resolve_link_to_dir with_tree_slot)
  have d: "init_derive remote_host ?e1 ?s2 =
     (Inr (),
      ?s2\<lparr>env := (env ?s2)\<lparr>next_path := Some (r @ ''/green''), live_path := Some (r @ ''/blue''),
                        virtualenv_path := Some (os_path_join (r @ ''/green'') ''env''),
                        pidfile := Some (os_path_join (os_path_join (r @ ''/green'') ''etc'') ''app.pid''),
                        nginx_conf := Some (os_path_join (os_path_join (r @ ''/green'') ''etc'') ''nginx.conf''),
                        color := Some (basename (r @ ''/green'')),
                        bluegreen_port := map_of (the (bluegreen_ports (env ?s2))) (basename (r @ ''/green''))\<rparr>,
        trace := trace ?s2 @ [(Run None (readlink_command (r @ ''/next'')), answer (r @ ''/green'')),
                            (Run None (readlink_command (r @ ''/live'')), answer (r @ ''/blue''))]\<rparr>)"
    by (rule init_derive_run[OF _ _ w res]) simp_all
  show ?thesis
    unfolding init_bluegreen_split
    by (simp add: bind_def a b get_env_def c d[simplified] layout_env_def fresh_init_trace_def)
qed

lemma init_paired:
  assumes root: "bluegreen_root (env s) = Some r" and ports: "bluegreen_ports (env s) = Some ps"
    and ps: "ps \<noteq> []" and canon: "canonical_path r"
    and tree: "tree_ready (world s) r"
    and links: "world s (r @ ''/live'') = Some (Link x)" "world s (r @ ''/next'') = Some (Link y)"
    and slots: "slot r x" "slot r y"
  shows "init_bluegreen remote_host s =
     (Inr (),
      s\<lparr>env := layout_env (env s) r x y,
        world := with_tree (world s) r,
        trace := trace s @ repeated_init_trace r x y\<rparr>)"
proof -
  let ?e1 = "(env s)\<lparr>green_path := Some (r @ ''/green''), blue_path := Some (r @ ''/blue''),
                             next_path_abs := Some (r @ ''/next''),
                             live_path_abs := Some (r @ ''/live'')\<rparr>"
  let ?s1 = "s\<lparr>env := ?e1\<rparr>"
  let ?s2 = "?s1\<lparr>world := with_tree (world s) r,
        trace := trace s @
          [(Run None (mkdir_command r (r @ ''/blue'') (r @ ''/green'')), answer ''''),
           (Exists False (r @ ''/live''), answer ''''),
           (Exists False (r @ ''/next''), answer '''')]\<rparr>"
  have r: "word r" using canon by (rule canonical_word)
  have w: "word (r @ ''/live'')" "word (r @ ''/next'')" using r by (simp_all add: word_append)
  have a: "require [''bluegreen_root'', ''bluegreen_ports''] s = (Inr (), s)"
    using root ports ps by (rule require_init)
  have b: "init_paths s = (Inr (), ?s1)" using root canon by (rule init_paths_run)
  have c: "init_links remote_host ?e1 ?s1 = (Inr (), ?s2)"
    using init_links_paired[of ?e1 r ?s1 x y] root r tree links slots by simp
  have res: "resolve (world ?s2) (r @ ''/live'') = Some x"
    "resolve (world ?s2) (r @ ''/next'') = Some y"
    by (simp_all add: resolve_link_to_dir with_tree_link links slot_dir slots)
  have d: "init_derive remote_host ?e1 ?s2 =
     (Inr (),
      ?s2\<lparr>env := (env ?s2)\<lparr>next_path := Some y, live_path := Some x,
                        virtualenv_path := Some (os_path_join y ''env''),
                        pidfile := Some (os_path_join (os_path_join y ''etc'') ''app.pid''),
                        nginx_conf := Some (os_path_join (os_path_join y ''etc'') ''nginx.conf''),
                        color := Some (basename y),
                        bluegreen_port := map_of (the (bluegreen_ports (env ?s2))) (basename y)\<rparr>,
        trace := trace ?s2 @ [(Run None (readlink_command (r @ ''/next'')), answer y),
                            (Run None (readlink_command (r @ ''/live'')), answer x)]\<rparr>)"
    by (rule init_derive_run[OF _ _ w res]) simp_all
  show ?thesis
    unfolding init_bluegreen_split
    by (simp add: bind_def a b get_env_def c d[simplified] layout_env_def repeated_init_trace_def)
qed

text \<open>\<open>swap_bluegreen\<close> repoints both links, at the paths \<^verbatim>\<open>env\<close> holds.\<close>

lemma require_swap:
  assumes "next_path (env s) = Some y" "live_path (env s) = Some x"
    "live_path_abs (env s) = Some l" "next_path_abs (env s) = Some n"
  shows "require [''next_path'', ''live_path'', ''live_path_abs'', ''next_path_abs''] s = (Inr (), s)"
  using assms by (simp add: require_run env_has_def)

lemma swap_run:
  assumes e: "next_path (env s) = Some y" "live_path (env s) = Some x"
      "live_path_abs (env s) = Some l" "next_path_abs (env s) = Some n"
    and w: "word x" "word y" "word l" "word n"
    and nodir: "world s l \<noteq> Some Dir" "world s n \<noteq> Some Dir"
  shows "swap_bluegreen remote_host s =
     (Inr (),
      s\<lparr>world := (world s)(l \<mapsto> Link y, n \<mapsto> Link x),
        trace := trace s @ [(Run None (ln_nsf_command y l), answer ''''),
                            (Run None (ln_nsf_command x n), answer '''')]\<rparr>)"
proof -
  have a: "require [''next_path'', ''live_path'', ''live_path_abs'', ''next_path_abs''] s = (Inr (), s)"
    using e by (rule require_swap)
  show ?thesis
    using w nodir
    by (simp add: swap_bluegreen_def bind_def a get_env_def e run_ln_nsf ret_def)
qed

text \<open>The layout after \<open>init_bluegreen\<close>, and the two operations run on it.\<close>

lemma with_tree_dirs:
  "with_tree fs r r = Some Dir" "with_tree fs r (r @ ''/blue/etc'') = Some Dir"
  "with_tree fs r (r @ ''/green/etc'') = Some Dir"
  by (simp_all add: with_tree_def)

lemma settled_after_fresh:
  "settled ((with_tree fs r)(r @ ''/live'' \<mapsto> Link (r @ ''/blue''),
                             r @ ''/next'' \<mapsto> Link (r @ ''/green'')))
     r (r @ ''/blue'') (r @ ''/green'')"
  by (simp add: settled_def linked_def slot_def with_tree_dirs with_tree_slot)

lemma settled_after_linked:
  "linked fs r x y \<Longrightarrow> settled (with_tree fs r) r x y"
  by (simp add: settled_def linked_def with_tree_dirs with_tree_slot with_tree_link)

lemma settled_swap:
  "settled fs r x y \<Longrightarrow> slot r x' \<Longrightarrow> slot r y' \<Longrightarrow>
   settled (fs(r @ ''/live'' \<mapsto> Link y', r @ ''/next'' \<mapsto> Link x')) r y' x'"
  by (simp add: settled_def linked_def)

lemma settled_with_tree: "settled fs r x y \<Longrightarrow> with_tree fs r = fs"
  by (simp add: settled_def with_tree_def map_upd_triv)

lemma settled_tree_ready: "settled fs r x y \<Longrightarrow> tree_ready fs r"
  by (simp add: settled_def tree_ready_def dir_or_absent_def)

lemma settled_linked: "settled fs r x y \<Longrightarrow> linked fs r x y"
  by (simp add: settled_def)

lemma layout_env_fields:
  "next_path (layout_env e r x y) = Some y" "live_path (layout_env e r x y) = Some x"
  "live_path_abs (layout_env e r x y) = Some (r @ ''/live'')"
  "next_path_abs (layout_env e r x y) = Some (r @ ''/next'')"
  "bluegreen_root (layout_env e r x y) = bluegreen_root e"
  "bluegreen_ports (layout_env e r x y) = bluegreen_ports e"
  by (simp_all add: layout_env_def)

lemma layout_env_again: "layout_env (layout_env e r x y) r x' y' = layout_env e r x' y'"
  by (simp add: layout_env_def)

lemma env_has_ports_layout:
  "env_has (layout_env e r x y) ''bluegreen_ports'' = env_has e ''bluegreen_ports''"
  by (simp add: env_has_def layout_env_fields)

lemma init_ready_ports:
  assumes "init_ready s r"
  obtains ps where "bluegreen_ports (env s) = Some ps" "ps \<noteq> []"
  using assms by (auto simp: init_ready_def env_has_def split: option.splits)

lemma init_start_fresh:
  assumes "init_ready s r" "fresh (world s) r"
  shows "init_bluegreen remote_host s =
     (Inr (),
      s\<lparr>env := layout_env (env s) r (r @ ''/blue'') (r @ ''/green''),
        world := (with_tree (world s) r)(r @ ''/live'' \<mapsto> Link (r @ ''/blue''),
                                           r @ ''/next'' \<mapsto> Link (r @ ''/green'')),
        trace := trace s @ fresh_init_trace r\<rparr>)"
proof -
  from assms(1) obtain ps where ps: "bluegreen_ports (env s) = Some ps" "ps \<noteq> []"
    by (rule init_ready_ports)
  from assms(1) have "bluegreen_root (env s) = Some r" "canonical_path r" "tree_ready (world s) r"
    by (simp_all add: init_ready_def)
  then show ?thesis using ps assms(2) by (simp add: init_fresh)
qed

lemma init_start_linked:
  assumes "init_ready s r" "linked (world s) r x y"
  shows "init_bluegreen remote_host s =
     (Inr (),
      s\<lparr>env := layout_env (env s) r x y, world := with_tree (world s) r,
        trace := trace s @ repeated_init_trace r x y\<rparr>)"
proof -
  from assms(1) obtain ps where ps: "bluegreen_ports (env s) = Some ps" "ps \<noteq> []"
    by (rule init_ready_ports)
  from assms(1) have a: "bluegreen_root (env s) = Some r" "canonical_path r" "tree_ready (world s) r"
    by (simp_all add: init_ready_def)
  from assms(2) have b: "world s (r @ ''/live'') = Some (Link x)"
    "world s (r @ ''/next'') = Some (Link y)" "slot r x" "slot r y"
    by (simp_all add: linked_def)
  show ?thesis by (rule init_paired[OF a(1) ps a(2,3) b])
qed

lemma init_settled:
  assumes "bluegreen_root (env s) = Some r" "env_has (env s) ''bluegreen_ports''"
    "canonical_path r" "settled (world s) r x y"
  shows "init_bluegreen remote_host s =
     (Inr (), s\<lparr>env := layout_env (env s) r x y, trace := trace s @ repeated_init_trace r x y\<rparr>)"
proof -
  have "init_ready s r"
    using assms by (simp add: init_ready_def settled_tree_ready)
  then have "init_bluegreen remote_host s =
     (Inr (),
      s\<lparr>env := layout_env (env s) r x y, world := with_tree (world s) r,
        trace := trace s @ repeated_init_trace r x y\<rparr>)"
    using settled_linked[OF assms(4)] by (rule init_start_linked)
  then show ?thesis by (simp add: settled_with_tree[OF assms(4)])
qed

lemma swap_settled:
  assumes env: "next_path (env s) = Some y'" "live_path (env s) = Some x'"
      "live_path_abs (env s) = Some (r @ ''/live'')" "next_path_abs (env s) = Some (r @ ''/next'')"
    and r: "canonical_path r" and slots: "slot r x'" "slot r y'"
    and fs: "settled (world s) r x y"
  shows "swap_bluegreen remote_host s =
     (Inr (),
      s\<lparr>world := (world s)(r @ ''/live'' \<mapsto> Link y', r @ ''/next'' \<mapsto> Link x'),
        trace := trace s @ swap_trace r x' y'\<rparr>)"
proof -
  have w: "word r" using r by (rule canonical_word)
  then have ws: "word x'" "word y'" "word (r @ ''/live'')" "word (r @ ''/next'')"
    using slots by (simp_all add: slot_word word_append)
  have nodir: "world s (r @ ''/live'') \<noteq> Some Dir" "world s (r @ ''/next'') \<noteq> Some Dir"
    using fs by (simp_all add: settled_def linked_def)
  show ?thesis
    unfolding swap_trace_def by (rule swap_run[OF env ws nodir])
qed

lemma init_from_start:
  assumes "init_ready s r" and "fresh (world s) r \<or> linked (world s) r x y"
  obtains x0 y0 s0 where "init_bluegreen remote_host s = (Inr (), s0)"
    "env s0 = layout_env (env s) r x0 y0" "settled (world s0) r x0 y0"
  using assms(2)
proof
  assume f: "fresh (world s) r"
  show thesis
  proof (rule that)
    show "init_bluegreen remote_host s =
     (Inr (),
      s\<lparr>env := layout_env (env s) r (r @ ''/blue'') (r @ ''/green''),
        world := (with_tree (world s) r)(r @ ''/live'' \<mapsto> Link (r @ ''/blue''),
                                           r @ ''/next'' \<mapsto> Link (r @ ''/green'')),
        trace := trace s @ fresh_init_trace r\<rparr>)"
      using assms(1) f by (rule init_start_fresh)
  next
    show "settled (world (s\<lparr>env := layout_env (env s) r (r @ ''/blue'') (r @ ''/green''),
        world := (with_tree (world s) r)(r @ ''/live'' \<mapsto> Link (r @ ''/blue''),
                                           r @ ''/next'' \<mapsto> Link (r @ ''/green'')),
        trace := trace s @ fresh_init_trace r\<rparr>)) r (r @ ''/blue'') (r @ ''/green'')"
      using settled_after_fresh[of "world s" r] by simp
  qed simp
next
  assume l: "linked (world s) r x y"
  show thesis
  proof (rule that)
    show "init_bluegreen remote_host s =
     (Inr (),
      s\<lparr>env := layout_env (env s) r x y, world := with_tree (world s) r,
        trace := trace s @ repeated_init_trace r x y\<rparr>)"
      using assms(1) l by (rule init_start_linked)
  next
    show "settled (world (s\<lparr>env := layout_env (env s) r x y, world := with_tree (world s) r,
        trace := trace s @ repeated_init_trace r x y\<rparr>)) r x y"
      using settled_after_linked[OF l] by simp
  qed simp
qed

lemma settled_slots: "settled fs r x y \<Longrightarrow> slot r x \<and> slot r y"
  by (simp add: settled_def linked_def)

lemma settled_links:
  "settled fs r x y \<Longrightarrow> fs (r @ ''/live'') = Some (Link x) \<and> fs (r @ ''/next'') = Some (Link y)"
  by (simp add: settled_def linked_def)

lemma swap_after_init:
  assumes "env s = layout_env e r x y" "canonical_path r" "settled (world s) r x' y'"
    "slot r x" "slot r y"
  shows "swap_bluegreen remote_host s =
     (Inr (),
      s\<lparr>world := (world s)(r @ ''/live'' \<mapsto> Link y, r @ ''/next'' \<mapsto> Link x),
        trace := trace s @ swap_trace r x y\<rparr>)"
  by (rule swap_settled[OF _ _ _ _ assms(2) assms(4,5) assms(3)])
     (simp_all add: assms(1) layout_env_fields)

lemma swap_first:
  assumes "env s = layout_env e r x y" "canonical_path r" "settled (world s) r x y"
  shows "swap_bluegreen remote_host s =
     (Inr (),
      s\<lparr>world := (world s)(r @ ''/live'' \<mapsto> Link y, r @ ''/next'' \<mapsto> Link x),
        trace := trace s @ swap_trace r x y\<rparr>)"
  using assms settled_slots[OF assms(3)] by (simp add: swap_after_init)

lemma swap_second:
  assumes "env s = layout_env e r x y" "canonical_path r" "settled (world s) r x y"
  shows "swap_bluegreen remote_host
           (s\<lparr>world := (world s)(r @ ''/live'' \<mapsto> Link y, r @ ''/next'' \<mapsto> Link x),
              trace := t\<rparr>) =
     (Inr (),
      s\<lparr>world := (world s)(r @ ''/live'' \<mapsto> Link y, r @ ''/next'' \<mapsto> Link x),
        trace := t @ swap_trace r x y\<rparr>)"
proof -
  let ?w = "(world s)(r @ ''/live'' \<mapsto> Link y, r @ ''/next'' \<mapsto> Link x)"
  let ?s1 = "s\<lparr>world := ?w, trace := t\<rparr>"
  have slots: "slot r x" "slot r y" using settled_slots[OF assms(3)] by simp_all
  have st: "settled (world ?s1) r y x"
    using settled_swap[OF assms(3) slots] by simp
  have e: "env ?s1 = layout_env e r x y" using assms(1) by simp
  have "swap_bluegreen remote_host ?s1 =
     (Inr (),
      ?s1\<lparr>world := (world ?s1)(r @ ''/live'' \<mapsto> Link y, r @ ''/next'' \<mapsto> Link x),
        trace := trace ?s1 @ swap_trace r x y\<rparr>)"
    using e assms(2) st slots by (rule swap_after_init)
  moreover have "?w(r @ ''/live'' \<mapsto> Link y, r @ ''/next'' \<mapsto> Link x) = ?w"
    by (rule ext) simp
  ultimately show ?thesis by simp
qed

lemma init_between:
  assumes "env s = layout_env e r x y" "canonical_path r" "settled (world s) r x y"
    and "bluegreen_root e = Some r" "env_has e ''bluegreen_ports''"
  shows "init_bluegreen remote_host
           (s\<lparr>world := (world s)(r @ ''/live'' \<mapsto> Link y, r @ ''/next'' \<mapsto> Link x),
              trace := t\<rparr>) =
     (Inr (),
      s\<lparr>env := layout_env e r y x,
        world := (world s)(r @ ''/live'' \<mapsto> Link y, r @ ''/next'' \<mapsto> Link x),
        trace := t @ repeated_init_trace r y x\<rparr>)"
proof -
  let ?w = "(world s)(r @ ''/live'' \<mapsto> Link y, r @ ''/next'' \<mapsto> Link x)"
  let ?s1 = "s\<lparr>world := ?w, trace := t\<rparr>"
  have slots: "slot r x" "slot r y" using settled_slots[OF assms(3)] by simp_all
  have st: "settled (world ?s1) r y x"
    using settled_swap[OF assms(3) slots] by simp
  have root: "bluegreen_root (env ?s1) = Some r"
    by (simp add: assms(1) layout_env_fields assms(4))
  have ports: "env_has (env ?s1) ''bluegreen_ports''"
    by (simp add: assms(1) env_has_ports_layout assms(5))
  have "init_bluegreen remote_host ?s1 =
     (Inr (), ?s1\<lparr>env := layout_env (env ?s1) r y x,
                   trace := trace ?s1 @ repeated_init_trace r y x\<rparr>)"
    using root ports assms(2) st by (rule init_settled)
  then show ?thesis by (simp add: assms(1) layout_env_again)
qed

text \<open>The scenario: the root \<^verbatim>\<open>/srv/app\<close> on the fresh host, and the runs from there.\<close>

lemma app_root_canonical: "canonical_path ''/srv/app''"
  by (simp add: canonical_path_def path_char_def sublist_code)

lemma fresh_host_ready: "init_ready fresh_host ''/srv/app''"
  by (simp add: init_ready_def app_root_canonical fresh_host_def app_env_def env0_def env_has_def
      tree_ready_def dir_or_absent_def)

lemma fresh_host_fresh: "fresh (world fresh_host) ''/srv/app''"
  by (simp add: fresh_def fresh_host_def)

lemma fresh_host_below: "below_directories (world fresh_host) ''/srv/app''"
  by (simp add: below_directories_def ancestors_def fresh_host_def)

lemma fresh_host_start:
  "fresh (world fresh_host) ''/srv/app'' \<or> linked (world fresh_host) ''/srv/app'' [] []"
  using fresh_host_fresh by simp

lemma fresh_host_runs:
  "init_bluegreen remote_host fresh_host = (fst (init_bluegreen remote_host fresh_host), after_init)"
  "swap_bluegreen remote_host after_init = (fst (swap_bluegreen remote_host after_init), after_swap)"
  "swap_bluegreen remote_host after_swap
     = (fst (swap_bluegreen remote_host after_swap), after_second_swap)"
  "init_bluegreen remote_host after_swap = (fst (init_bluegreen remote_host after_swap), after_reinit)"
  "swap_bluegreen remote_host after_reinit
     = (fst (swap_bluegreen remote_host after_reinit), after_reinit_swap)"
  by (simp_all add: after_init_def after_swap_def after_second_swap_def after_reinit_def
      after_reinit_swap_def)

lemma after_init_state:
  "env after_init = layout_env app_env ''/srv/app'' ''/srv/app/blue'' ''/srv/app/green''"
  "settled (world after_init) ''/srv/app'' ''/srv/app/blue'' ''/srv/app/green''"
proof -
  have run: "init_bluegreen remote_host fresh_host =
     (Inr (),
      fresh_host\<lparr>env := layout_env (env fresh_host) ''/srv/app'' (''/srv/app'' @ ''/blue'')
                       (''/srv/app'' @ ''/green''),
        world := (with_tree (world fresh_host) ''/srv/app'')
                   (''/srv/app'' @ ''/live'' \<mapsto> Link (''/srv/app'' @ ''/blue''),
                    ''/srv/app'' @ ''/next'' \<mapsto> Link (''/srv/app'' @ ''/green'')),
        trace := trace fresh_host @ fresh_init_trace ''/srv/app''\<rparr>)"
    using fresh_host_ready fresh_host_fresh by (rule init_start_fresh)
  have env_fresh: "env fresh_host = app_env" by (simp add: fresh_host_def)
  show "env after_init = layout_env app_env ''/srv/app'' ''/srv/app/blue'' ''/srv/app/green''"
    using run env_fresh by (simp add: after_init_def)
  show "settled (world after_init) ''/srv/app'' ''/srv/app/blue'' ''/srv/app/green''"
    using settled_after_fresh[of "world fresh_host" "''/srv/app''"]
    by (simp add: after_init_def run)
qed

lemma after_swap_state:
  "fst (swap_bluegreen remote_host after_init) = Inr ()"
  "after_swap = after_init\<lparr>world := (world after_init)
      (''/srv/app/live'' \<mapsto> Link ''/srv/app/green'', ''/srv/app/next'' \<mapsto> Link ''/srv/app/blue''),
    trace := trace after_init @ swap_trace ''/srv/app'' ''/srv/app/blue'' ''/srv/app/green''\<rparr>"
  using swap_first[OF after_init_state(1) app_root_canonical after_init_state(2)]
  by (simp_all add: after_swap_def)

lemma after_second_swap_state:
  "fst (swap_bluegreen remote_host after_swap) = Inr ()"
  "world after_second_swap = (world after_init)
      (''/srv/app/live'' \<mapsto> Link ''/srv/app/green'', ''/srv/app/next'' \<mapsto> Link ''/srv/app/blue'')"
  using swap_second[OF after_init_state(1) app_root_canonical after_init_state(2),
      of "trace after_init @ swap_trace ''/srv/app'' ''/srv/app/blue'' ''/srv/app/green''"]
  by (simp_all add: after_second_swap_def after_swap_state(2))


section \<open>The claims about the blue/green operations\<close>

text \<open>
  C5. A first \<open>init_bluegreen\<close> on a host where the directories above the root are real
  directories, neither \<^verbatim>\<open>live\<close> nor \<^verbatim>\<open>next\<close> exists, and nothing but a directory stands at the
  five directories of the layout, succeeds. It leaves
  the root, \<^verbatim>\<open>blue\<close>, \<^verbatim>\<open>green\<close>, \<^verbatim>\<open>blue/etc\<close> and \<^verbatim>\<open>green/etc\<close> as directories, \<^verbatim>\<open>live\<close> as a link to
  \<^verbatim>\<open>blue\<close> and \<^verbatim>\<open>next\<close> as a link to \<^verbatim>\<open>green\<close>, and nothing else on the host changed. In \<^verbatim>\<open>env\<close> the
  live path is \<^verbatim>\<open>blue\<close>, the next path is \<^verbatim>\<open>green\<close>, the color is \<^verbatim>\<open>green\<close>, and the port is what the
  port mapping holds for \<^verbatim>\<open>green\<close>.
\<close>

theorem init_bluegreen_fresh:
  assumes "bluegreen_root (env s) = Some r" and "bluegreen_ports (env s) = Some ports"
    and "ports \<noteq> []" and "canonical_path r"
    and "tree_ready (world s) r" and "fresh (world s) r"
    and "init_bluegreen remote_host s = (res, s')"
    and "below_directories (world s) r"
  shows "res = Inr () \<and>
     world s' = (with_tree (world s) r)(r @ ''/live'' \<mapsto> Link (r @ ''/blue''),
                                         r @ ''/next'' \<mapsto> Link (r @ ''/green'')) \<and>
     world s' r = Some Dir \<and>
     world s' (r @ ''/blue'') = Some Dir \<and> world s' (r @ ''/green'') = Some Dir \<and>
     world s' (r @ ''/blue/etc'') = Some Dir \<and> world s' (r @ ''/green/etc'') = Some Dir \<and>
     world s' (r @ ''/live'') = Some (Link (r @ ''/blue'')) \<and>
     world s' (r @ ''/next'') = Some (Link (r @ ''/green'')) \<and>
     live_path (env s') = Some (r @ ''/blue'') \<and> next_path (env s') = Some (r @ ''/green'') \<and>
     color (env s') = Some ''green'' \<and> bluegreen_port (env s') = map_of ports ''green''"
proof -
  have "init_bluegreen remote_host s =
     (Inr (),
      s\<lparr>env := layout_env (env s) r (r @ ''/blue'') (r @ ''/green''),
        world := (with_tree (world s) r)(r @ ''/live'' \<mapsto> Link (r @ ''/blue''),
                                           r @ ''/next'' \<mapsto> Link (r @ ''/green'')),
        trace := trace s @ fresh_init_trace r\<rparr>)"
    using assms(1-6) by (rule init_fresh)
  with assms(7) have res: "res = Inr ()"
    and s': "s' = s\<lparr>env := layout_env (env s) r (r @ ''/blue'') (r @ ''/green''),
        world := (with_tree (world s) r)(r @ ''/live'' \<mapsto> Link (r @ ''/blue''),
                                           r @ ''/next'' \<mapsto> Link (r @ ''/green'')),
        trace := trace s @ fresh_init_trace r\<rparr>"
    by simp_all
  have e: "live_path (env s') = Some (r @ ''/blue'')" "next_path (env s') = Some (r @ ''/green'')"
    "color (env s') = Some ''green''" "bluegreen_port (env s') = map_of ports ''green''"
    by (simp_all add: s' layout_env_def basename_slot assms(2))
  have w: "world s' = (with_tree (world s) r)(r @ ''/live'' \<mapsto> Link (r @ ''/blue''),
                                         r @ ''/next'' \<mapsto> Link (r @ ''/green''))"
    by (simp add: s')
  have d: "world s' r = Some Dir"
     "world s' (r @ ''/blue'') = Some Dir" "world s' (r @ ''/green'') = Some Dir"
     "world s' (r @ ''/blue/etc'') = Some Dir" "world s' (r @ ''/green/etc'') = Some Dir"
     "world s' (r @ ''/live'') = Some (Link (r @ ''/blue''))"
     "world s' (r @ ''/next'') = Some (Link (r @ ''/green''))"
    by (simp_all add: w with_tree_dirs with_tree_slot)
  show ?thesis using res e w d by simp
qed

text \<open>
  The scenario with root \<^verbatim>\<open>/srv/app\<close> and ports 8001 and 8002: the first \<open>init_bluegreen\<close> gives
  the layout above and the port 8002.
\<close>

theorem init_bluegreen_fresh_witness:
  "fst (init_bluegreen remote_host fresh_host) = Inr () \<and>
   world after_init ''/srv/app'' = Some Dir \<and>
   world after_init ''/srv/app/blue'' = Some Dir \<and>
   world after_init ''/srv/app/green'' = Some Dir \<and>
   world after_init ''/srv/app/blue/etc'' = Some Dir \<and>
   world after_init ''/srv/app/green/etc'' = Some Dir \<and>
   world after_init ''/srv/app/live'' = Some (Link ''/srv/app/blue'') \<and>
   world after_init ''/srv/app/next'' = Some (Link ''/srv/app/green'') \<and>
   color (env after_init) = Some ''green'' \<and> bluegreen_port (env after_init) = Some 8002"
proof -
  have run: "init_bluegreen remote_host fresh_host
             = (fst (init_bluegreen remote_host fresh_host), after_init)"
    by (simp add: after_init_def)
  have root: "bluegreen_root (env fresh_host) = Some ''/srv/app''"
    and ports: "bluegreen_ports (env fresh_host) = Some [(''blue'', 8001), (''green'', 8002)]"
    and tree: "tree_ready (world fresh_host) ''/srv/app''"
    by (simp_all add: fresh_host_def app_env_def tree_ready_def dir_or_absent_def)
  have "[(''blue'', 8001::int), (''green'', 8002)] \<noteq> []" by simp
  from init_bluegreen_fresh[OF root ports this app_root_canonical tree fresh_host_fresh run
      fresh_host_below]
  show ?thesis by (simp add: with_tree_def)
qed

text \<open>
  C7. \<open>init_bluegreen\<close> run twice in a row, from a host that is fresh or already has its two
  links, the root lying below real directories: both runs succeed, the second leaves \<^verbatim>\<open>env\<close> exactly as the first left it (every
  derived path, the color and the port), it leaves the whole file system as it was, and what
  it runs on the host is \<^verbatim>\<open>mkdir -p\<close>, the two existence tests, which succeed, and the two
  \<^verbatim>\<open>readlink -f\<close>, which answer what \<^verbatim>\<open>env\<close> already held: no link is made or replaced.
\<close>

theorem init_bluegreen_twice:
  assumes "init_ready s r" and "fresh (world s) r \<or> linked (world s) r x y"
    and "init_bluegreen remote_host s = (res1, s1)"
    and "init_bluegreen remote_host s1 = (res2, s2)"
    and "below_directories (world s) r"
  shows "res1 = Inr () \<and> res2 = Inr () \<and> env s2 = env s1 \<and> world s2 = world s1 \<and>
     trace s2 = trace s1 @
       repeated_init_trace r (the (live_path (env s1))) (the (next_path (env s1)))"
proof -
  from assms(1,2) obtain x0 y0 s0 where i: "init_bluegreen remote_host s = (Inr (), s0)"
    "env s0 = layout_env (env s) r x0 y0" "settled (world s0) r x0 y0"
    by (rule init_from_start)
  from i(1) assms(3) have first: "res1 = Inr ()" "s1 = s0" by simp_all
  from assms(1) have r: "bluegreen_root (env s) = Some r" "env_has (env s) ''bluegreen_ports''"
    "canonical_path r"
    by (simp_all add: init_ready_def)
  have root: "bluegreen_root (env s0) = Some r" by (simp add: i(2) layout_env_fields r(1))
  have ports: "env_has (env s0) ''bluegreen_ports''"
    by (simp add: i(2) env_has_ports_layout r(2))
  have "init_bluegreen remote_host s0 =
     (Inr (), s0\<lparr>env := layout_env (env s0) r x0 y0, trace := trace s0 @ repeated_init_trace r x0 y0\<rparr>)"
    using root ports r(3) i(3) by (rule init_settled)
  with assms(4) first(2) have second: "res2 = Inr ()"
    "s2 = s0\<lparr>env := layout_env (env s0) r x0 y0, trace := trace s0 @ repeated_init_trace r x0 y0\<rparr>"
    by simp_all
  have "env s2 = env s0" by (simp add: second(2) i(2) layout_env_again)
  moreover have "world s2 = world s0" by (simp add: second(2))
  moreover have "trace s2 = trace s0 @
       repeated_init_trace r (the (live_path (env s0))) (the (next_path (env s0)))"
    by (simp add: second(2) i(2) layout_env_fields)
  ultimately show ?thesis using first second(1) by simp
qed

text \<open>The scenario: \<open>init_bluegreen\<close> twice on the fresh host.\<close>

theorem init_bluegreen_twice_witness:
  "fst (init_bluegreen remote_host fresh_host) = Inr () \<and>
   fst (init_bluegreen remote_host after_init) = Inr () \<and>
   env after_second_init = env after_init \<and> world after_second_init = world after_init \<and>
   trace after_second_init = trace after_init @
     repeated_init_trace ''/srv/app'' (the (live_path (env after_init)))
       (the (next_path (env after_init)))"
proof -
  have run1: "init_bluegreen remote_host fresh_host
             = (fst (init_bluegreen remote_host fresh_host), after_init)"
    by (simp add: after_init_def)
  have run2: "init_bluegreen remote_host after_init
             = (fst (init_bluegreen remote_host after_init), after_second_init)"
    by (simp add: after_second_init_def)
  have start: "fresh (world fresh_host) ''/srv/app'' \<or> linked (world fresh_host) ''/srv/app'' [] []"
    using fresh_host_fresh by simp
  from init_bluegreen_twice[OF fresh_host_ready start run1 run2 fresh_host_below]
  show ?thesis by simp
qed

text \<open>
  C9. After \<open>init_bluegreen\<close>, run on a host whose root lies below real directories and
  that was fresh or had its two links, \<^verbatim>\<open>env\<close> holds as live and next paths the targets the two links
  had when it ran. \<open>swap_bluegreen\<close> leaves \<^verbatim>\<open>env\<close> as it is, so a second \<open>swap_bluegreen\<close> runs
  the same two \<^verbatim>\<open>ln -nsf\<close> commands as the first, and the file system after the second is the
  file system after the first.
\<close>

theorem swap_bluegreen_twice:
  assumes "init_ready s r" and "fresh (world s) r \<or> linked (world s) r x y"
    and "init_bluegreen remote_host s = (res0, s0)"
    and "swap_bluegreen remote_host s0 = (res1, s1)"
    and "swap_bluegreen remote_host s1 = (res2, s2)"
    and "below_directories (world s) r"
  shows "res1 = Inr () \<and> res2 = Inr () \<and> env s1 = env s0 \<and> env s2 = env s0 \<and>
     world s0 (r @ ''/live'') = Some (Link (the (live_path (env s0)))) \<and>
     world s0 (r @ ''/next'') = Some (Link (the (next_path (env s0)))) \<and>
     trace s1 = trace s0 @ swap_trace r (the (live_path (env s0))) (the (next_path (env s0))) \<and>
     trace s2 = trace s1 @ swap_trace r (the (live_path (env s0))) (the (next_path (env s0))) \<and>
     world s1 = (world s0)(r @ ''/live'' \<mapsto> Link (the (next_path (env s0))),
                           r @ ''/next'' \<mapsto> Link (the (live_path (env s0)))) \<and>
     world s2 = world s1"
proof -
  from assms(1,2) obtain x0 y0 s0' where i: "init_bluegreen remote_host s = (Inr (), s0')"
    "env s0' = layout_env (env s) r x0 y0" "settled (world s0') r x0 y0"
    by (rule init_from_start)
  from i(1) assms(3) have s0: "s0' = s0" by simp
  note e = i(2)[unfolded s0] and st = i(3)[unfolded s0]
  from assms(1) have canon: "canonical_path r" by (simp add: init_ready_def)
  let ?w = "(world s0)(r @ ''/live'' \<mapsto> Link y0, r @ ''/next'' \<mapsto> Link x0)"
  have "swap_bluegreen remote_host s0 =
     (Inr (), s0\<lparr>world := ?w, trace := trace s0 @ swap_trace r x0 y0\<rparr>)"
    using e canon st by (rule swap_first)
  with assms(4) have first: "res1 = Inr ()"
    "s1 = s0\<lparr>world := ?w, trace := trace s0 @ swap_trace r x0 y0\<rparr>"
    by simp_all
  have "swap_bluegreen remote_host (s0\<lparr>world := ?w, trace := trace s0 @ swap_trace r x0 y0\<rparr>) =
     (Inr (), s0\<lparr>world := ?w, trace := (trace s0 @ swap_trace r x0 y0) @ swap_trace r x0 y0\<rparr>)"
    using e canon st by (rule swap_second)
  with assms(5) first(2) have second: "res2 = Inr ()"
    "s2 = s0\<lparr>world := ?w, trace := (trace s0 @ swap_trace r x0 y0) @ swap_trace r x0 y0\<rparr>"
    by simp_all
  have cache: "the (live_path (env s0)) = x0" "the (next_path (env s0)) = y0"
    by (simp_all add: e layout_env_fields)
  have links: "world s0 (r @ ''/live'') = Some (Link x0)" "world s0 (r @ ''/next'') = Some (Link y0)"
    using settled_links[OF st] by simp_all
  have "env s1 = env s0" "env s2 = env s0" "world s1 = ?w" "world s2 = world s1"
    "trace s1 = trace s0 @ swap_trace r x0 y0" "trace s2 = trace s1 @ swap_trace r x0 y0"
    by (simp_all add: first(2) second(2))
  then show ?thesis using first(1) second(1) links by (simp add: cache)
qed

text \<open>The scenario: \<open>init_bluegreen\<close>, then \<open>swap_bluegreen\<close> twice, on the fresh host.\<close>

theorem swap_bluegreen_twice_witness:
  "fst (swap_bluegreen remote_host after_init) = Inr () \<and>
   fst (swap_bluegreen remote_host after_swap) = Inr () \<and>
   env after_swap = env after_init \<and> env after_second_swap = env after_init \<and>
   trace after_swap = trace after_init @
     swap_trace ''/srv/app'' (the (live_path (env after_init))) (the (next_path (env after_init))) \<and>
   trace after_second_swap = trace after_swap @
     swap_trace ''/srv/app'' (the (live_path (env after_init))) (the (next_path (env after_init))) \<and>
   world after_second_swap = world after_swap"
  using swap_bluegreen_twice[OF fresh_host_ready fresh_host_start fresh_host_runs(1,2,3)
      fresh_host_below]
  by simp

text \<open>
  C1, as stated, fails. In the scenario \<^verbatim>\<open>live\<close> points at \<^verbatim>\<open>blue\<close> and \<^verbatim>\<open>next\<close> at \<^verbatim>\<open>green\<close> after
  \<open>init_bluegreen\<close>; after two runs of \<open>swap_bluegreen\<close>, both successful, \<^verbatim>\<open>live\<close> points at
  \<^verbatim>\<open>green\<close> and \<^verbatim>\<open>next\<close> at \<^verbatim>\<open>blue\<close>: the original pairing has not come back.
\<close>

theorem swap_bluegreen_twice_not_inverse:
  "world after_init ''/srv/app/live'' = Some (Link ''/srv/app/blue'') \<and>
   world after_init ''/srv/app/next'' = Some (Link ''/srv/app/green'') \<and>
   fst (swap_bluegreen remote_host after_init) = Inr () \<and>
   fst (swap_bluegreen remote_host after_swap) = Inr () \<and>
   world after_second_swap ''/srv/app/live'' = Some (Link ''/srv/app/green'') \<and>
   world after_second_swap ''/srv/app/next'' = Some (Link ''/srv/app/blue'')"
  using settled_links[OF after_init_state(2)] after_swap_state(1) after_second_swap_state
  by simp

text \<open>
  C1, amended. After \<open>init_bluegreen\<close>, run on a host whose root lies below real directories
  and that was fresh or had its two links, a \<open>swap_bluegreen\<close> exchanges the targets of \<^verbatim>\<open>live\<close> and
  \<^verbatim>\<open>next\<close>. A second \<open>swap_bluegreen\<close> right after it leaves the two links where the first put
  them. When \<open>init_bluegreen\<close> is run again between the two, the second \<open>swap_bluegreen\<close> returns
  both links, and the whole file system, to what they were before the first.
\<close>

theorem swap_bluegreen_inverse_needs_init:
  assumes "init_ready s r" and "fresh (world s) r \<or> linked (world s) r x y"
    and "init_bluegreen remote_host s = (res0, s0)"
    and "swap_bluegreen remote_host s0 = (res1, s1)"
    and "swap_bluegreen remote_host s1 = (res2, s2)"
    and "init_bluegreen remote_host s1 = (res3, s3)"
    and "swap_bluegreen remote_host s3 = (res4, s4)"
    and "below_directories (world s) r"
  shows "res1 = Inr () \<and> res2 = Inr () \<and> res3 = Inr () \<and> res4 = Inr () \<and>
     world s1 (r @ ''/live'') = world s0 (r @ ''/next'') \<and>
     world s1 (r @ ''/next'') = world s0 (r @ ''/live'') \<and>
     world s2 (r @ ''/live'') = world s0 (r @ ''/next'') \<and>
     world s2 (r @ ''/next'') = world s0 (r @ ''/live'') \<and>
     world s4 (r @ ''/live'') = world s0 (r @ ''/live'') \<and>
     world s4 (r @ ''/next'') = world s0 (r @ ''/next'') \<and>
     world s4 = world s0"
proof -
  from assms(1,2) obtain x0 y0 s0' where i: "init_bluegreen remote_host s = (Inr (), s0')"
    "env s0' = layout_env (env s) r x0 y0" "settled (world s0') r x0 y0"
    by (rule init_from_start)
  from i(1) assms(3) have s0: "s0' = s0" by simp
  note e = i(2)[unfolded s0] and st = i(3)[unfolded s0]
  from assms(1) have canon: "canonical_path r" and root: "bluegreen_root (env s) = Some r"
    and ports: "env_has (env s) ''bluegreen_ports''"
    by (simp_all add: init_ready_def)
  let ?w = "(world s0)(r @ ''/live'' \<mapsto> Link y0, r @ ''/next'' \<mapsto> Link x0)"
  let ?t = "trace s0 @ swap_trace r x0 y0"
  have "swap_bluegreen remote_host s0 = (Inr (), s0\<lparr>world := ?w, trace := ?t\<rparr>)"
    using e canon st by (rule swap_first)
  with assms(4) have first: "res1 = Inr ()" "s1 = s0\<lparr>world := ?w, trace := ?t\<rparr>"
    by simp_all
  have "swap_bluegreen remote_host (s0\<lparr>world := ?w, trace := ?t\<rparr>) =
     (Inr (), s0\<lparr>world := ?w, trace := ?t @ swap_trace r x0 y0\<rparr>)"
    using e canon st by (rule swap_second)
  with assms(5) first(2) have second: "res2 = Inr ()"
    "s2 = s0\<lparr>world := ?w, trace := ?t @ swap_trace r x0 y0\<rparr>"
    by simp_all
  let ?s3 = "s0\<lparr>env := layout_env (env s) r y0 x0, world := ?w,
                 trace := ?t @ repeated_init_trace r y0 x0\<rparr>"
  have "init_bluegreen remote_host (s0\<lparr>world := ?w, trace := ?t\<rparr>) = (Inr (), ?s3)"
    using e canon st root ports by (rule init_between)
  with assms(6) first(2) have third: "res3 = Inr ()" "s3 = ?s3"
    by simp_all
  have st1: "settled ?w r y0 x0"
    using settled_swap[OF st] settled_slots[OF st] by simp
  have e3: "env ?s3 = layout_env (env s) r y0 x0" by simp
  have st3: "settled (world ?s3) r y0 x0" using st1 by simp
  have "swap_bluegreen remote_host ?s3 =
     (Inr (), ?s3\<lparr>world := (world ?s3)(r @ ''/live'' \<mapsto> Link x0, r @ ''/next'' \<mapsto> Link y0),
                   trace := trace ?s3 @ swap_trace r y0 x0\<rparr>)"
    using e3 canon st3 by (rule swap_first)
  with assms(7) third(2) have fourth: "res4 = Inr ()"
    "world s4 = ?w(r @ ''/live'' \<mapsto> Link x0, r @ ''/next'' \<mapsto> Link y0)"
    by simp_all
  have links: "world s0 (r @ ''/live'') = Some (Link x0)" "world s0 (r @ ''/next'') = Some (Link y0)"
    using settled_links[OF st] by simp_all
  have restored: "world s4 = world s0"
    unfolding fourth(2) by (rule ext) (simp add: links)
  have "world s1 = ?w" "world s2 = ?w" by (simp_all add: first(2) second(2))
  then show ?thesis using first(1) second(1) third(1) fourth(1) restored links by simp
qed

text \<open>The scenario: both sequences from the fresh host.\<close>

theorem swap_bluegreen_inverse_needs_init_witness:
  "world after_swap ''/srv/app/live'' = world after_init ''/srv/app/next'' \<and>
   world after_swap ''/srv/app/next'' = world after_init ''/srv/app/live'' \<and>
   world after_second_swap ''/srv/app/live'' = world after_init ''/srv/app/next'' \<and>
   world after_second_swap ''/srv/app/next'' = world after_init ''/srv/app/live'' \<and>
   fst (init_bluegreen remote_host after_swap) = Inr () \<and>
   fst (swap_bluegreen remote_host after_reinit) = Inr () \<and>
   world after_reinit_swap = world after_init"
  using swap_bluegreen_inverse_needs_init[OF fresh_host_ready fresh_host_start fresh_host_runs
      fresh_host_below]
  by simp

end
